theory Spec2Isabelle
  imports Complex_Main "HOL-Library.Multiset"
begin

section \<open>Errors and sequencing\<close>

text \<open>
  The exceptions the Python source can raise become values. A computation that may raise
  returns \<open>error + 'a\<close>, with \<open>Inl\<close> for the exception.
\<close>

datatype error =
  KeyError | TypeError | NameError | AssertionError | ZeroDivisionError
  | RuntimeError | EinopsError | IndexError | OSError | UnpicklingError

definition ebind :: "error + 'a \<Rightarrow> ('a \<Rightarrow> error + 'b) \<Rightarrow> error + 'b" where
  "ebind m f = (case m of Inl e \<Rightarrow> Inl e | Inr x \<Rightarrow> f x)"

text \<open>A Python \<open>for x in xs: body\<close> over a state; the first exception ends the loop.\<close>

fun for_each :: "('x \<Rightarrow> 's \<Rightarrow> error + 's) \<Rightarrow> 'x list \<Rightarrow> 's \<Rightarrow> error + 's" where
  "for_each body [] st = Inr st"
| "for_each body (x # xs) st = ebind (body x st) (for_each body xs)"

section \<open>Tensors\<close>

text \<open>
  A tensor is its shape and its entries, read by an index list. Entries are real numbers;
  Boolean tensors (the result of a comparison) have \<open>bool\<close> entries. The accumulators of
  the source are float32 tensors (\<^verbatim>\<open>torch.zeros\<close> with the default dtype), so an in-place
  addition stores a rounded sum. Both are modelled: \<open>iadd_slice\<close> and what is built on it add
  without rounding (the program over exact arithmetic), and the definitions with the suffix
  \<open>_f32\<close> are the same lines with the rounding.
\<close>

record 'a tensor =
  shape :: "nat list"
  elems :: "nat list \<Rightarrow> 'a"

definition in_range :: "nat list \<Rightarrow> nat list \<Rightarrow> bool" where
  "in_range shp idx = list_all2 (<) idx shp"

subsection \<open>Broadcasting, as torch does it\<close>

text \<open>
  Two dimensions are compatible when they are equal or one of them is 1; shapes are
  aligned at their last dimension, the shorter one padded with 1 on the left. A dimension
  of size 1 is read at index 0 whatever the index of the result.
\<close>

definition bdim :: "nat \<Rightarrow> nat \<Rightarrow> nat option" where
  "bdim m n = (if m = n then Some m else if m = 1 then Some n else if n = 1 then Some m else None)"

fun bshape :: "nat list \<Rightarrow> nat list \<Rightarrow> nat list option" where
  "bshape [] [] = Some []"
| "bshape (m # ms) (n # ns) =
     (case bdim m n of None \<Rightarrow> None | Some d \<Rightarrow> map_option ((#) d) (bshape ms ns))"
| "bshape _ _ = None"

definition pad_shape :: "nat \<Rightarrow> nat list \<Rightarrow> nat list" where
  "pad_shape n s = replicate (n - length s) 1 @ s"

definition broadcast_shapes :: "nat list \<Rightarrow> nat list \<Rightarrow> nat list option" where
  "broadcast_shapes a b =
     (let n = max (length a) (length b) in bshape (pad_shape n a) (pad_shape n b))"

definition bidx :: "nat \<Rightarrow> nat \<Rightarrow> nat" where
  "bidx d i = (if d = 1 then 0 else i)"

definition bread :: "'a tensor \<Rightarrow> nat list \<Rightarrow> 'a" where
  "bread t idx = elems t (map2 bidx (shape t) (drop (length idx - length (shape t)) idx))"

text \<open>An in-place operation cannot grow its target: the operand must broadcast to it.\<close>

definition broadcastable_to :: "nat list \<Rightarrow> nat list \<Rightarrow> bool" where
  "broadcastable_to src dst =
     (length src \<le> length dst \<and>
      list_all2 (\<lambda>s d. s = d \<or> s = 1) src (drop (length dst - length src) dst))"

subsection \<open>The tensor operations the source uses\<close>

text \<open>\<^verbatim>\<open>a > b\<close>\<close>

definition tensor_gt :: "real tensor \<Rightarrow> real tensor \<Rightarrow> error + bool tensor" where
  "tensor_gt a b =
     (case broadcast_shapes (shape a) (shape b) of
        None \<Rightarrow> Inl RuntimeError
      | Some shp \<Rightarrow> Inr \<lparr>shape = shp, elems = \<lambda>idx. bread a idx > bread b idx\<rparr>)"

text \<open>\<^verbatim>\<open>~a\<close>\<close>

definition tensor_not :: "bool tensor \<Rightarrow> bool tensor" where
  "tensor_not a = \<lparr>shape = shape a, elems = \<lambda>idx. \<not> elems a idx\<rparr>"

text \<open>\<^verbatim>\<open>a * m\<close> for a boolean tensor \<open>m\<close> (True counts as 1, False as 0).\<close>

definition tensor_mul_mask :: "real tensor \<Rightarrow> bool tensor \<Rightarrow> error + real tensor" where
  "tensor_mul_mask a m =
     (case broadcast_shapes (shape a) (shape m) of
        None \<Rightarrow> Inl RuntimeError
      | Some shp \<Rightarrow>
          Inr \<lparr>shape = shp, elems = \<lambda>idx. bread a idx * (if bread m idx then 1 else 0)\<rparr>)"

text \<open>\<^verbatim>\<open>len(a)\<close>: the first dimension; a tensor without dimensions has no length.\<close>

definition len_tensor :: "'a tensor \<Rightarrow> error + nat" where
  "len_tensor a = (case shape a of [] \<Rightarrow> Inl TypeError | n # _ \<Rightarrow> Inr n)"

text \<open>\<^verbatim>\<open>a[:, :, :, :, None, None, None]\<close>: three dimensions of size 1 after the fourth.\<close>

definition index_none3 :: "'a tensor \<Rightarrow> error + 'a tensor" where
  "index_none3 a =
     (if length (shape a) < 4 then Inl IndexError
      else Inr \<lparr>shape = take 4 (shape a) @ [1, 1, 1] @ drop 4 (shape a),
                elems = \<lambda>idx. elems a (take 4 idx @ drop 7 idx)\<rparr>)"

text \<open>\<^verbatim>\<open>einops.reduce(a, "T F B L -> T F", "sum")\<close> of a boolean tensor: a count.\<close>

definition reduce_TFBL_TF :: "bool tensor \<Rightarrow> error + real tensor" where
  "reduce_TFBL_TF a =
     (case shape a of
        [T, F, B, L] \<Rightarrow>
          Inr \<lparr>shape = [T, F],
               elems = \<lambda>idx. \<Sum>b<B. \<Sum>l<L. (if elems a [idx ! 0, idx ! 1, b, l] then 1 else 0)\<rparr>
      | _ \<Rightarrow> Inl EinopsError)"

text \<open>\<^verbatim>\<open>einops.repeat(a, "B L R1 R2 C -> T F B L R1 R2 C", F=F, T=T)\<close>\<close>

definition repeat_BLRRC_TFBLRRC :: "real tensor \<Rightarrow> nat \<Rightarrow> nat \<Rightarrow> error + real tensor" where
  "repeat_BLRRC_TFBLRRC a F T =
     (case shape a of
        [B, L, R1, R2, C] \<Rightarrow>
          Inr \<lparr>shape = [T, F, B, L, R1, R2, C], elems = \<lambda>idx. elems a (drop 2 idx)\<rparr>
      | _ \<Rightarrow> Inl EinopsError)"

text \<open>\<^verbatim>\<open>einops.reduce(a, "T F B L R1 R2 C -> T F R1 R2 C", "sum")\<close>\<close>

definition reduce_TFBLRRC_TFRRC :: "real tensor \<Rightarrow> error + real tensor" where
  "reduce_TFBLRRC_TFRRC a =
     (case shape a of
        [T, F, B, L, R1, R2, C] \<Rightarrow>
          Inr \<lparr>shape = [T, F, R1, R2, C],
               elems = \<lambda>idx. \<Sum>b<B. \<Sum>l<L.
                 elems a [idx ! 0, idx ! 1, b, l, idx ! 2, idx ! 3, idx ! 4]\<rparr>
      | _ \<Rightarrow> Inl EinopsError)"

text \<open>
  A slice bound of Python, for an axis of size \<open>n\<close>: a negative bound counts from the end,
  and the result is clamped to \<open>[0, n]\<close>.
\<close>

definition slice_index :: "nat \<Rightarrow> int \<Rightarrow> nat" where
  "slice_index n i = (if i < 0 then nat (max 0 (i + int n)) else min (nat i) n)"

text \<open>\<^verbatim>\<open>xs[s:e]\<close> of a list.\<close>

definition py_slice :: "'a list \<Rightarrow> int \<Rightarrow> int \<Rightarrow> 'a list" where
  "py_slice xs s e =
     (let n = length xs in take (slice_index n e - slice_index n s) (drop (slice_index n s) xs))"

text \<open>\<^verbatim>\<open>a[s:e]\<close>: a slice of the first axis; an end before the start gives an empty slice.\<close>

definition slice0 :: "'a tensor \<Rightarrow> int \<Rightarrow> int \<Rightarrow> error + 'a tensor" where
  "slice0 a s e =
     (case shape a of
        [] \<Rightarrow> Inl IndexError
      | n # rest \<Rightarrow>
          Inr \<lparr>shape = (slice_index n e - slice_index n s) # rest,
               elems = \<lambda>idx. elems a ((hd idx + slice_index n s) # tl idx)\<rparr>)"

text \<open>
  \<^verbatim>\<open>acc[:, s:e, ...] += rhs\<close> with \<open>k\<close> index positions written out (\<open>k = 5\<close> for the
  trackers, \<open>k = 2\<close> for the counters): the tensor \<open>acc\<close> after the statement. The target is
  the view of \<open>acc\<close> whose second axis is cut to the slice \<open>s:e\<close>; \<open>rhs\<close> must broadcast to
  it. Entries outside the view keep their value.
\<close>

definition iadd_slice :: "nat \<Rightarrow> real tensor \<Rightarrow> int \<Rightarrow> int \<Rightarrow> real tensor \<Rightarrow> error + real tensor" where
  "iadd_slice k acc s e rhs =
     (let shp = shape acc in
      if length shp < k \<or> length shp < 2 then Inl IndexError
      else
        let n = shp ! 1; s' = slice_index n s; e' = slice_index n e in
        if \<not> broadcastable_to (shape rhs) (shp[1 := e' - s']) then Inl RuntimeError
        else
          Inr \<lparr>shape = shp,
               elems = \<lambda>idx.
                 if in_range shp idx \<and> s' \<le> idx ! 1 \<and> idx ! 1 < e'
                 then elems acc idx + bread rhs (idx[1 := idx ! 1 - s'])
                 else elems acc idx\<rparr>)"

subsection \<open>float32\<close>

text \<open>
  \<open>float32 x\<close> is the binary32 number nearest to \<open>x\<close>, a tie going to the even significand:
  24 significant bits, so the spacing at \<open>x\<close> is \<open>2 ^ (e - 23)\<close> for the exponent \<open>e\<close> of
  \<open>x\<close>, and the smallest exponent is -126 (below it the spacing stays \<open>2 ^ -149\<close>). A value
  that rounds to \<open>2 ^ 128\<close> or more is \<^verbatim>\<open>inf\<close> in the source, which a real number cannot
  be: the properties below stay far from that range.
\<close>

definition round_half_even :: "real \<Rightarrow> int" where
  "round_half_even x =
     (let n = \<lfloor>x\<rfloor> in
      if x - of_int n < 1 / 2 then n
      else if 1 / 2 < x - of_int n then n + 1
      else if even n then n else n + 1)"

definition float32 :: "real \<Rightarrow> real" where
  "float32 x =
     (if x = 0 then 0
      else
        let e = max \<lfloor>log 2 \<bar>x\<bar>\<rfloor> (- 126);
            ulp = 2 powi (e - 23)
        in of_int (round_half_even (x / ulp)) * ulp)"

text \<open>
  \<^verbatim>\<open>acc[:, s:e, ...] += rhs\<close> when \<open>acc\<close> is a float32 tensor: torch converts the operand to
  the dtype of the target and adds in that dtype, so the entry stored is the float32 sum of
  the old entry and the converted operand. Everything else is as in \<open>iadd_slice\<close>.
\<close>

definition iadd_slice_f32 ::
  "nat \<Rightarrow> real tensor \<Rightarrow> int \<Rightarrow> int \<Rightarrow> real tensor \<Rightarrow> error + real tensor" where
  "iadd_slice_f32 k acc s e rhs =
     (let shp = shape acc in
      if length shp < k \<or> length shp < 2 then Inl IndexError
      else
        let n = shp ! 1; s' = slice_index n s; e' = slice_index n e in
        if \<not> broadcastable_to (shape rhs) (shp[1 := e' - s']) then Inl RuntimeError
        else
          Inr \<lparr>shape = shp,
               elems = \<lambda>idx.
                 if in_range shp idx \<and> s' \<le> idx ! 1 \<and> idx ! 1 < e'
                 then float32 (elems acc idx + float32 (bread rhs (idx[1 := idx ! 1 - s'])))
                 else elems acc idx\<rparr>)"

section \<open>The store and the results dictionary\<close>

text \<open>
  The accumulators are tensors that the source updates in place and shares by reference,
  so they live in a store: a reference is an address, \<open>cells\<close> gives the tensor at an
  address and \<open>next_free\<close> is the address the next allocation returns.
\<close>

type_synonym addr = nat

record heap =
  cells :: "addr \<Rightarrow> real tensor"
  next_free :: addr

definition alloc :: "real tensor \<Rightarrow> heap \<Rightarrow> addr \<times> heap" where
  "alloc t h = (next_free h, h\<lparr>cells := (cells h)(next_free h := t), next_free := Suc (next_free h)\<rparr>)"

definition store :: "addr \<Rightarrow> real tensor \<Rightarrow> heap \<Rightarrow> heap" where
  "store a t h = h\<lparr>cells := (cells h)(a := t)\<rparr>"

text \<open>
  \<^verbatim>\<open>results[name]\<close> is a dictionary with the four keys \<^verbatim>\<open>"on"\<close>, \<^verbatim>\<open>"off"\<close>,
  \<^verbatim>\<open>"on_count"\<close> and \<^verbatim>\<open>"off_count"\<close>, each holding a reference to a tensor. An attribute
  function is used by the code under \<^verbatim>\<open>custom_function.__name__\<close> only.
\<close>

record entry =
  on :: addr
  off :: addr
  on_count :: addr
  off_count :: addr

type_synonym custom_function = string

type_synonym results = "custom_function \<rightharpoonup> entry"

section \<open>What the module takes from outside\<close>

text \<open>
  \<^verbatim>\<open>circuits.chess_utils\<close>, \<^verbatim>\<open>circuits.utils\<close> and the pickled dataset are not part of
  the code modelled here; what the module reads from them is a parameter:
  \<^item> \<open>config_lookup\<close>, \<open>num_rows\<close>, \<open>num_cols\<close>, \<open>get_num_classes\<close>:
    \<^verbatim>\<open>chess_utils.config_lookup\<close>, the two fields of a config the module reads, and
    \<^verbatim>\<open>chess_utils.get_num_classes\<close>;
  \<^item> \<open>one_hot_boards f inputs\<close>: \<^verbatim>\<open>state_stack_to_one_hot(config, device,
    create_state_stacks(inputs, f))\<close>;
  \<^item> \<open>module_device\<close>: the module-level name \<^verbatim>\<open>device\<close>, which is bound only when the
    module runs as a script (line 216);
  \<^item> \<open>device_ok d\<close>: torch accepts the device name \<open>d\<close> and the machine has that device;
    otherwise putting a tensor on \<open>d\<close> raises RuntimeError;
  \<^item> \<open>pickle_load path\<close>: \<^verbatim>\<open>open(path, "rb")\<close> and \<^verbatim>\<open>pickle.load\<close> (lines 142--143), which
    raise or give the dataset;
  \<^item> \<open>get_ae_bundle\<close>: \<^verbatim>\<open>circuits.utils.get_ae_bundle\<close> (line 153), which raises or gives the
    bundle;
  \<^item> \<open>pgn_strings\<close>, \<open>data\<close>, \<open>dictionary_size\<close> and \<open>collect_activations_batch inputs\<close>: what
    the two loops of \<^verbatim>\<open>aggregate_statistics\<close> read, that is the local variables
    \<^verbatim>\<open>pgn_strings\<close>, \<^verbatim>\<open>data\<close> and \<^verbatim>\<open>num_features\<close> and the activations of all features
    on a batch of inputs (the first component of what \<^verbatim>\<open>collect_activations_batch\<close> returns
    for \<^verbatim>\<open>ae_bundle\<close>). A run sets them from what it loads.

  The pickled dataset is a dictionary: its entry \<^verbatim>\<open>"pgn_strings"\<close>, if it has one, is a list
  of strings, and its other entries are tensors, kept here in the order of the dictionary.
  Of a bundle the module reads \<^verbatim>\<open>dictionary_size\<close> and passes the rest on.
\<close>

record dataset =
  ds_tensors :: "(string \<times> real tensor) list"
  ds_pgn_strings :: "string list option"

record ae_bundle =
  bundle_dictionary_size :: int
  bundle_activations :: "string list \<Rightarrow> real tensor"

record 'c env =
  config_lookup :: "string \<rightharpoonup> 'c"
  num_rows :: "'c \<Rightarrow> nat"
  num_cols :: "'c \<Rightarrow> nat"
  get_num_classes :: "'c \<Rightarrow> nat"
  one_hot_boards :: "custom_function \<Rightarrow> string list \<Rightarrow> real tensor"
  module_device :: "string option"
  device_ok :: "string \<Rightarrow> bool"
  pickle_load :: "string \<Rightarrow> error + dataset"
  get_ae_bundle :: "string \<Rightarrow> string \<Rightarrow> (string \<rightharpoonup> real tensor) \<Rightarrow> int \<Rightarrow> string \<Rightarrow> error + ae_bundle"
  pgn_strings :: "string list"
  data :: "string \<rightharpoonup> real tensor"
  dictionary_size :: nat
  collect_activations_batch :: "string list \<Rightarrow> real tensor"

text \<open>
  \<^verbatim>\<open>x.to(d)\<close>: RuntimeError for a device that torch does not accept or the machine does not
  have. The entries of a tensor do not depend on its device, so the tensor is returned as it
  is. With the module-level name \<^verbatim>\<open>device\<close> for \<open>d\<close>, a NameError when the name is not bound.
\<close>

definition to_device :: "'c env \<Rightarrow> string \<Rightarrow> 'a \<Rightarrow> error + 'a" where
  "to_device ev d x = (if device_ok ev d then Inr x else Inl RuntimeError)"

definition to_module_device :: "'c env \<Rightarrow> 'a \<Rightarrow> error + 'a" where
  "to_module_device ev x =
     (case module_device ev of None \<Rightarrow> Inl NameError | Some d \<Rightarrow> to_device ev d x)"

section \<open>initialize\_results\_dict (lines 21--44)\<close>

definition zeros :: "nat list \<Rightarrow> real tensor" where
  "zeros shp = \<lparr>shape = shp, elems = \<lambda>idx. 0\<rparr>"

text \<open>
  The body of the loop, per attribute function. \<^verbatim>\<open>torch.zeros\<close> and \<^verbatim>\<open>clone\<close> each
  allocate a tensor; \<^verbatim>\<open>torch.zeros\<close> rejects a negative size.
\<close>

definition initialize_function ::
  "'c env \<Rightarrow> int \<Rightarrow> int \<Rightarrow> custom_function \<Rightarrow> results \<times> heap \<Rightarrow> error + results \<times> heap" where
  "initialize_function ev num_thresholds num_features custom_function st =
     (case st of (results, h) \<Rightarrow>
      case config_lookup ev custom_function of
        None \<Rightarrow> Inl KeyError
      | Some config \<Rightarrow>
          let num_classes = get_num_classes ev config in
          if num_thresholds < 0 \<or> num_features < 0 then Inl RuntimeError
          else
            let (z5, h1) = alloc (zeros [nat num_thresholds, nat num_features,
                                         num_rows ev config, num_cols ev config, num_classes]) h in
            ebind (to_module_device ev z5) (\<lambda>on_tracker_TFRRC.
            let (off_tracker, h2) = alloc (cells h1 on_tracker_TFRRC) h1;
                (z2, h3) = alloc (zeros [nat num_thresholds, nat num_features]) h2 in
            ebind (to_module_device ev z2) (\<lambda>on_counter_TF.
            let (off_counter, h4) = alloc (cells h3 on_counter_TF) h3 in
            Inr (results(custom_function \<mapsto>
                   \<lparr>on = on_tracker_TFRRC, off = off_tracker,
                    on_count = on_counter_TF, off_count = off_counter\<rparr>), h4))))"

definition initialize_results_dict ::
  "'c env \<Rightarrow> custom_function list \<Rightarrow> int \<Rightarrow> int \<Rightarrow> heap \<Rightarrow> error + results \<times> heap" where
  "initialize_results_dict ev custom_functions num_thresholds num_features h =
     for_each (initialize_function ev num_thresholds num_features) custom_functions (Map.empty, h)"

section \<open>aggregate\_batch\_statistics (lines 74--126)\<close>

text \<open>
  The body of the loop over the attribute functions (lines 95--124). \<open>f_batch_size\<close> is an
  einops axis length, a natural number; \<open>f_start\<close> and \<open>f_end\<close> are slice bounds. First the
  function over exact arithmetic, then with the float32 accumulators of a run.
\<close>

definition accumulate_function ::
  "bool tensor \<Rightarrow> real tensor \<Rightarrow> real tensor \<Rightarrow> real tensor \<Rightarrow> (string \<rightharpoonup> real tensor) \<Rightarrow>
   int \<Rightarrow> int \<Rightarrow> nat \<Rightarrow> custom_function \<Rightarrow> results \<times> heap \<Rightarrow> error + results \<times> heap" where
  "accumulate_function active_indices_TFBL active_counts_TF off_counts_TF thresholds_T111
       batch_data f_start f_end f_batch_size custom_function st =
     (case st of (results, h) \<Rightarrow>
      case results custom_function of
        None \<Rightarrow> Inl KeyError
      | Some ent \<Rightarrow>
          let on_tracker_TFRRC = on ent; off_tracker_FTRRC = off ent in
          case batch_data custom_function of
            None \<Rightarrow> Inl KeyError
          | Some boards_BLRRC \<Rightarrow>
              ebind (len_tensor thresholds_T111) (\<lambda>T.
              ebind (repeat_BLRRC_TFBLRRC boards_BLRRC f_batch_size T) (\<lambda>boards_TFBLRRC.
              ebind (index_none3 active_indices_TFBL) (\<lambda>active7.
              ebind (tensor_mul_mask boards_TFBLRRC active7) (\<lambda>on_product.
              ebind (reduce_TFBLRRC_TFRRC on_product) (\<lambda>active_boards_sum_TFRRC.
              ebind (tensor_mul_mask boards_TFBLRRC (tensor_not active7)) (\<lambda>off_product.
              ebind (reduce_TFBLRRC_TFRRC off_product) (\<lambda>off_boards_sum_TFRRC.
              ebind (iadd_slice 5 (cells h on_tracker_TFRRC) f_start f_end active_boards_sum_TFRRC)
                (\<lambda>t1.
              let h1 = store on_tracker_TFRRC t1 h in
              ebind (iadd_slice 5 (cells h1 off_tracker_FTRRC) f_start f_end off_boards_sum_TFRRC)
                (\<lambda>t2.
              let h2 = store off_tracker_FTRRC t2 h1;
                  results1 = results(custom_function \<mapsto>
                    ent\<lparr>on := on_tracker_TFRRC, off := off_tracker_FTRRC\<rparr>)
              in
              case results1 custom_function of
                None \<Rightarrow> Inl KeyError
              | Some ent1 \<Rightarrow>
                  ebind (iadd_slice 2 (cells h2 (on_count ent1)) f_start f_end active_counts_TF)
                    (\<lambda>t3.
                  let h3 = store (on_count ent1) t3 h2 in
                  ebind (iadd_slice 2 (cells h3 (off_count ent1)) f_start f_end off_counts_TF)
                    (\<lambda>t4.
                  Inr (results1, store (off_count ent1) t4 h3)))))))))))))"

definition aggregate_batch_statistics ::
  "results \<Rightarrow> custom_function list \<Rightarrow> real tensor \<Rightarrow> real tensor \<Rightarrow> (string \<rightharpoonup> real tensor) \<Rightarrow>
   int \<Rightarrow> int \<Rightarrow> nat \<Rightarrow> heap \<Rightarrow> error + results \<times> heap" where
  "aggregate_batch_statistics results custom_functions activations_FBL thresholds_T111
       batch_data f_start f_end f_batch_size h =
     ebind (tensor_gt activations_FBL thresholds_T111) (\<lambda>active_indices_TFBL.
     ebind (reduce_TFBL_TF active_indices_TFBL) (\<lambda>active_counts_TF.
     ebind (reduce_TFBL_TF (tensor_not active_indices_TFBL)) (\<lambda>off_counts_TF.
     for_each
       (accumulate_function active_indices_TFBL active_counts_TF off_counts_TF thresholds_T111
          batch_data f_start f_end f_batch_size)
       custom_functions (results, h))))"

subsection \<open>With float32 accumulators\<close>

text \<open>
  The same lines, with the four in-place additions (lines 117, 118, 123 and 124) rounding
  what they store. The counts of lines 91--92 are sums of Booleans, which torch takes in
  integers, and so are the sums of lines 106--115 for boards of an integer type: these sums
  are exact here.
\<close>

definition accumulate_function_f32 ::
  "bool tensor \<Rightarrow> real tensor \<Rightarrow> real tensor \<Rightarrow> real tensor \<Rightarrow> (string \<rightharpoonup> real tensor) \<Rightarrow>
   int \<Rightarrow> int \<Rightarrow> nat \<Rightarrow> custom_function \<Rightarrow> results \<times> heap \<Rightarrow> error + results \<times> heap" where
  "accumulate_function_f32 active_indices_TFBL active_counts_TF off_counts_TF thresholds_T111
       batch_data f_start f_end f_batch_size custom_function st =
     (case st of (results, h) \<Rightarrow>
      case results custom_function of
        None \<Rightarrow> Inl KeyError
      | Some ent \<Rightarrow>
          let on_tracker_TFRRC = on ent; off_tracker_FTRRC = off ent in
          case batch_data custom_function of
            None \<Rightarrow> Inl KeyError
          | Some boards_BLRRC \<Rightarrow>
              ebind (len_tensor thresholds_T111) (\<lambda>T.
              ebind (repeat_BLRRC_TFBLRRC boards_BLRRC f_batch_size T) (\<lambda>boards_TFBLRRC.
              ebind (index_none3 active_indices_TFBL) (\<lambda>active7.
              ebind (tensor_mul_mask boards_TFBLRRC active7) (\<lambda>on_product.
              ebind (reduce_TFBLRRC_TFRRC on_product) (\<lambda>active_boards_sum_TFRRC.
              ebind (tensor_mul_mask boards_TFBLRRC (tensor_not active7)) (\<lambda>off_product.
              ebind (reduce_TFBLRRC_TFRRC off_product) (\<lambda>off_boards_sum_TFRRC.
              ebind (iadd_slice_f32 5 (cells h on_tracker_TFRRC) f_start f_end
                       active_boards_sum_TFRRC)
                (\<lambda>t1.
              let h1 = store on_tracker_TFRRC t1 h in
              ebind (iadd_slice_f32 5 (cells h1 off_tracker_FTRRC) f_start f_end
                       off_boards_sum_TFRRC)
                (\<lambda>t2.
              let h2 = store off_tracker_FTRRC t2 h1;
                  results1 = results(custom_function \<mapsto>
                    ent\<lparr>on := on_tracker_TFRRC, off := off_tracker_FTRRC\<rparr>)
              in
              case results1 custom_function of
                None \<Rightarrow> Inl KeyError
              | Some ent1 \<Rightarrow>
                  ebind (iadd_slice_f32 2 (cells h2 (on_count ent1)) f_start f_end
                           active_counts_TF)
                    (\<lambda>t3.
                  let h3 = store (on_count ent1) t3 h2 in
                  ebind (iadd_slice_f32 2 (cells h3 (off_count ent1)) f_start f_end
                           off_counts_TF)
                    (\<lambda>t4.
                  Inr (results1, store (off_count ent1) t4 h3)))))))))))))"

definition aggregate_batch_statistics_f32 ::
  "results \<Rightarrow> custom_function list \<Rightarrow> real tensor \<Rightarrow> real tensor \<Rightarrow> (string \<rightharpoonup> real tensor) \<Rightarrow>
   int \<Rightarrow> int \<Rightarrow> nat \<Rightarrow> heap \<Rightarrow> error + results \<times> heap" where
  "aggregate_batch_statistics_f32 results custom_functions activations_FBL thresholds_T111
       batch_data f_start f_end f_batch_size h =
     ebind (tensor_gt activations_FBL thresholds_T111) (\<lambda>active_indices_TFBL.
     ebind (reduce_TFBL_TF active_indices_TFBL) (\<lambda>active_counts_TF.
     ebind (reduce_TFBL_TF (tensor_not active_indices_TFBL)) (\<lambda>off_counts_TF.
     for_each
       (accumulate_function_f32 active_indices_TFBL active_counts_TF off_counts_TF
          thresholds_T111 batch_data f_start f_end f_batch_size)
       custom_functions (results, h))))"

section \<open>get\_data\_batch (lines 47--71)\<close>

text \<open>
  Per attribute function: a board of 8 rows is built from the inputs (which reads the
  module-level \<^verbatim>\<open>device\<close>); otherwise the precomputed tensor is sliced.
\<close>

definition get_data_function ::
  "'c env \<Rightarrow> (string \<rightharpoonup> real tensor) \<Rightarrow> string list \<Rightarrow> int \<Rightarrow> int \<Rightarrow> custom_function \<Rightarrow>
   (string \<rightharpoonup> real tensor) \<Rightarrow> error + (string \<rightharpoonup> real tensor)" where
  "get_data_function ev data' inputs_BL start end' custom_function batch_data =
     (case config_lookup ev custom_function of
        None \<Rightarrow> Inl KeyError
      | Some config \<Rightarrow>
          if num_rows ev config = 8 then
            ebind (to_module_device ev (one_hot_boards ev custom_function inputs_BL))
              (\<lambda>boards. Inr (batch_data(custom_function \<mapsto> boards)))
          else
            (case data' custom_function of
               None \<Rightarrow> Inl KeyError
             | Some t \<Rightarrow>
                 ebind (slice0 t start end')
                   (\<lambda>boards. Inr (batch_data(custom_function \<mapsto> boards)))))"

definition get_data_batch ::
  "'c env \<Rightarrow> (string \<rightharpoonup> real tensor) \<Rightarrow> string list \<Rightarrow> int \<Rightarrow> int \<Rightarrow> custom_function list \<Rightarrow>
   error + (string \<rightharpoonup> real tensor)" where
  "get_data_batch ev data' inputs_BL start end' custom_functions =
     for_each (get_data_function ev data' inputs_BL start end') custom_functions Map.empty"

section \<open>aggregate\_statistics (lines 129--206)\<close>

text \<open>
  What a run leaves behind: the store, one record per completed call of
  \<^verbatim>\<open>aggregate_batch_statistics\<close> (the batch index and the feature range), and the
  contents of \<^verbatim>\<open>results.pkl\<close> once it is written. A run returns the exception that ended
  it, if any, with the state at that moment.
\<close>

record run_state =
  st_heap :: heap
  processed :: "(nat \<times> int \<times> int) list"
  results_pkl :: "(results \<times> heap) option"

fun for_each_run :: "('x \<Rightarrow> 's \<Rightarrow> error option \<times> 's) \<Rightarrow> 'x list \<Rightarrow> 's \<Rightarrow> error option \<times> 's" where
  "for_each_run body [] st = (None, st)"
| "for_each_run body (x # xs) st =
     (case body x st of
        (Some e, st') \<Rightarrow> (Some e, st')
      | (None, st') \<Rightarrow> for_each_run body xs st')"

text \<open>
  A Python call that passes its arguments by position to a function with three required
  parameters: an argument that is not passed is \<open>None\<close> here, and the call raises TypeError.
\<close>

definition call3 ::
  "('a \<Rightarrow> 'b \<Rightarrow> 'c \<Rightarrow> error + 'r) \<Rightarrow> 'a option \<Rightarrow> 'b option \<Rightarrow> 'c option \<Rightarrow> error + 'r" where
  "call3 f a b c =
     (case (a, b, c) of (Some x, Some y, Some z) \<Rightarrow> f x y z | _ \<Rightarrow> Inl TypeError)"

text \<open>
  \<^verbatim>\<open>torch.arange(0.0, 1.0, 0.1).view(-1, 1, 1, 1)\<close>: ten thresholds, a float32 tensor whose entry
  \<open>i\<close> is the float32 number nearest to \<open>i / 10\<close>.
\<close>

definition thresholds_T111 :: "real tensor" where
  "thresholds_T111 = \<lparr>shape = [10, 1, 1, 1], elems = \<lambda>idx. float32 (real (idx ! 0) / 10)\<rparr>"

text \<open>
  The body of the inner loop (lines 184--203), for the feature sub-batch number
  \<open>feature\<close> of the input batch number \<open>i\<close>. The accumulators of a run are the float32
  tensors that \<^verbatim>\<open>initialize_results_dict\<close> allocates.
\<close>

definition feature_step ::
  "custom_function list \<Rightarrow> real tensor \<Rightarrow> real tensor \<Rightarrow> (string \<rightharpoonup> real tensor) \<Rightarrow>
   int \<Rightarrow> nat \<Rightarrow> nat \<Rightarrow> nat \<Rightarrow> results \<times> run_state \<Rightarrow> error option \<times> results \<times> run_state" where
  "feature_step custom_functions all_activations_FBL thresholds batch_data
       feature_batch_size num_features i feature st =
     (case st of (results, rs) \<Rightarrow>
      let f_start = int feature * feature_batch_size;
          f_end = min ((int feature + 1) * feature_batch_size) (int num_features);
          f_batch_size = f_end - f_start
      in
      case slice0 all_activations_FBL f_start f_end of
        Inl e \<Rightarrow> (Some e, st)
      | Inr activations_FBL \<Rightarrow>
          (case aggregate_batch_statistics_f32 results custom_functions activations_FBL
                  thresholds batch_data f_start f_end (nat f_batch_size) (st_heap rs) of
             Inl e \<Rightarrow> (Some e, st)
           | Inr (results', h') \<Rightarrow>
               (None, (results',
                  rs\<lparr>st_heap := h', processed := processed rs @ [(i, f_start, f_end)]\<rparr>))))"

text \<open>The body of the outer loop (lines 172--203), for the input batch number \<open>i\<close>.\<close>

definition batch_step ::
  "'c env \<Rightarrow> custom_function list \<Rightarrow> real tensor \<Rightarrow> int \<Rightarrow> int \<Rightarrow> nat \<Rightarrow> int \<Rightarrow>
   nat \<Rightarrow> results \<times> run_state \<Rightarrow> error option \<times> results \<times> run_state" where
  "batch_step ev custom_functions thresholds batch_size feature_batch_size num_features
       num_feature_iters i st =
     (let start = int i * batch_size;
          end' = (int i + 1) * batch_size;
          inputs_BL = py_slice (pgn_strings ev) start end'
      in
      case get_data_batch ev (data ev) inputs_BL start end' custom_functions of
        Inl e \<Rightarrow> (Some e, st)
      | Inr batch_data \<Rightarrow>
          let all_activations_FBL = collect_activations_batch ev inputs_BL in
          for_each_run
            (feature_step custom_functions all_activations_FBL thresholds batch_data
               feature_batch_size num_features i)
            [0..<nat num_feature_iters] st)"

text \<open>
  Lines 142--151: the dataset is loaded, its tensors are put on the device in the order of
  the dictionary, and the entry \<^verbatim>\<open>"pgn_strings"\<close> is taken out of it (KeyError when the
  dictionary has none).
\<close>

definition load_dataset ::
  "'c env \<Rightarrow> string \<Rightarrow> string \<Rightarrow> error + string list \<times> (string \<rightharpoonup> real tensor)" where
  "load_dataset ev device data_path =
     ebind (pickle_load ev data_path) (\<lambda>data0.
     ebind (for_each
              (\<lambda>key_value moved.
                 ebind (to_device ev device (snd key_value))
                   (\<lambda>t. Inr (moved @ [(fst key_value, t)])))
              (ds_tensors data0) []) (\<lambda>moved.
     case ds_pgn_strings data0 of
       None \<Rightarrow> Inl KeyError
     | Some strings \<Rightarrow> Inr (strings, map_of moved)))"

text \<open>
  \<^verbatim>\<open>len(torch.arange(0, n, device=d))\<close> (lines 156--157): torch rejects a negative upper
  bound and a device it does not accept.
\<close>

definition arange_len :: "'c env \<Rightarrow> int \<Rightarrow> string \<Rightarrow> error + nat" where
  "arange_len ev n d = (if n < 0 \<or> \<not> device_ok ev d then Inl RuntimeError else Inr (nat n))"

text \<open>
  Lines 139--157, up to the two assertions: what the loops read afterwards, as an
  environment.
\<close>

definition load_run ::
  "'c env \<Rightarrow> string \<Rightarrow> int \<Rightarrow> string \<Rightarrow> string \<Rightarrow> string \<Rightarrow> error + 'c env" where
  "load_run ev autoencoder_path batch_size device model_path data_path =
     ebind (load_dataset ev device data_path) (\<lambda>loaded.
     ebind (get_ae_bundle ev autoencoder_path device (snd loaded) batch_size model_path)
       (\<lambda>ae_bundle.
     ebind (arange_len ev (bundle_dictionary_size ae_bundle) device) (\<lambda>num_features.
     Inr (ev\<lparr>pgn_strings := fst loaded, data := snd loaded,
              dictionary_size := num_features,
              collect_activations_batch := bundle_activations ae_bundle\<rparr>))))"

text \<open>
  The run, with the arguments of the source. The two assertions are lines 159 and 160;
  \<^verbatim>\<open>n_inputs % batch_size\<close> raises ZeroDivisionError for a batch size of 0. Line 169 calls
  \<^verbatim>\<open>initialize_results_dict\<close> with two arguments. An exception leaves
  \<^verbatim>\<open>aggregate_statistics\<close>, whose accumulators are local and are not seen again: the state
  returned with an exception is the state before the step that raised it, also when that
  step is a call of \<^verbatim>\<open>aggregate_batch_statistics\<close> that had already updated the accumulators
  of some attribute functions.
\<close>

definition aggregate_statistics ::
  "'c env \<Rightarrow> custom_function list \<Rightarrow> string \<Rightarrow> int \<Rightarrow> int \<Rightarrow> string \<Rightarrow> string \<Rightarrow> string \<Rightarrow>
   run_state \<Rightarrow> error option \<times> run_state" where
  "aggregate_statistics ev custom_functions autoencoder_path n_inputs batch_size device
       model_path data_path rs =
     (let feature_batch_size = batch_size in
      case load_run ev autoencoder_path batch_size device model_path data_path of
        Inl e \<Rightarrow> (Some e, rs)
      | Inr ev' \<Rightarrow>
          let num_features = dictionary_size ev' in
          if \<not> n_inputs \<le> int (length (pgn_strings ev')) then (Some AssertionError, rs)
          else if batch_size = 0 then (Some ZeroDivisionError, rs)
          else if \<not> n_inputs mod batch_size = 0 then (Some AssertionError, rs)
          else
            let n_iters = n_inputs div batch_size;
                num_feature_iters = int num_features div feature_batch_size
            in
            case ebind (to_device ev' device thresholds_T111)
                   (\<lambda>thr. ebind (len_tensor thr) (\<lambda>num_thresholds. Inr (thr, num_thresholds))) of
              Inl e \<Rightarrow> (Some e, rs)
            | Inr (thr, num_thresholds) \<Rightarrow>
                (case call3 (\<lambda>fs t f. initialize_results_dict ev' fs t f (st_heap rs))
                        (Some custom_functions) (Some (int num_thresholds)) None of
                   Inl e \<Rightarrow> (Some e, rs)
                 | Inr (results, h) \<Rightarrow>
                     (case for_each_run
                             (batch_step ev' custom_functions thr batch_size
                                feature_batch_size num_features num_feature_iters)
                             [0..<nat n_iters] (results, rs\<lparr>st_heap := h\<rparr>) of
                        (Some e, (results', rs')) \<Rightarrow> (Some e, rs')
                      | (None, (results', rs')) \<Rightarrow>
                          (None, rs'\<lparr>results_pkl := Some (results', st_heap rs')\<rparr>))))"

section \<open>Vocabulary of the properties\<close>

subsection \<open>Accumulators and what a call may change\<close>

definition entry_addrs :: "entry \<Rightarrow> addr set" where
  "entry_addrs ent = {on ent, off ent, on_count ent, off_count ent}"

text \<open>The accumulator tensors of the attribute functions of a list.\<close>

definition accumulators :: "results \<Rightarrow> custom_function list \<Rightarrow> addr set" where
  "accumulators results cfs =
     {a. \<exists>cf\<in>set cfs. \<exists>ent. results cf = Some ent \<and> a \<in> entry_addrs ent}"

text \<open>
  \<open>same_outside s e t t'\<close>: the tensor \<open>t'\<close> has the shape of \<open>t\<close> and differs from it at most
  in the slice \<open>s:e\<close> of the second axis.
\<close>

definition same_outside :: "int \<Rightarrow> int \<Rightarrow> real tensor \<Rightarrow> real tensor \<Rightarrow> bool" where
  "same_outside s e t t' \<longleftrightarrow>
     shape t' = shape t \<and>
     (\<forall>idx. \<not> (slice_index (shape t ! 1) s \<le> idx ! 1 \<and> idx ! 1 < slice_index (shape t ! 1) e) \<longrightarrow>
        elems t' idx = elems t idx)"

definition heap_frame :: "int \<Rightarrow> int \<Rightarrow> addr set \<Rightarrow> heap \<Rightarrow> heap \<Rightarrow> bool" where
  "heap_frame s e A h h' \<longleftrightarrow>
     next_free h' = next_free h \<and>
     (\<forall>a. same_outside s e (cells h a) (cells h' a)) \<and>
     (\<forall>a. a \<notin> A \<longrightarrow> cells h' a = cells h a)"

subsection \<open>What a call adds, in closed form\<close>

text \<open>
  For activations of shape (F, B, L) and thresholds of shape (T, 1, 1, 1): whether feature
  \<open>f\<close> is active at position \<open>(b, l)\<close> for threshold \<open>t\<close>, the number of positions where it is
  (is not), and the sum of the boards over these positions.
\<close>

definition active :: "real tensor \<Rightarrow> real tensor \<Rightarrow> nat \<Rightarrow> nat \<Rightarrow> nat \<Rightarrow> nat \<Rightarrow> bool" where
  "active acts thr t f b l \<longleftrightarrow> elems thr [t, 0, 0, 0] < elems acts [f, b, l]"

definition count_on :: "real tensor \<Rightarrow> real tensor \<Rightarrow> nat \<Rightarrow> nat \<Rightarrow> real" where
  "count_on acts thr t f =
     (\<Sum>b<shape acts ! 1. \<Sum>l<shape acts ! 2. if active acts thr t f b l then 1 else 0)"

definition count_off :: "real tensor \<Rightarrow> real tensor \<Rightarrow> nat \<Rightarrow> nat \<Rightarrow> real" where
  "count_off acts thr t f =
     (\<Sum>b<shape acts ! 1. \<Sum>l<shape acts ! 2. if active acts thr t f b l then 0 else 1)"

definition sum_on ::
  "real tensor \<Rightarrow> real tensor \<Rightarrow> real tensor \<Rightarrow> nat \<Rightarrow> nat \<Rightarrow> nat \<Rightarrow> nat \<Rightarrow> nat \<Rightarrow> real" where
  "sum_on acts thr boards t f r c k =
     (\<Sum>b<shape acts ! 1. \<Sum>l<shape acts ! 2.
        elems boards [b, l, r, c, k] * (if active acts thr t f b l then 1 else 0))"

definition sum_off ::
  "real tensor \<Rightarrow> real tensor \<Rightarrow> real tensor \<Rightarrow> nat \<Rightarrow> nat \<Rightarrow> nat \<Rightarrow> nat \<Rightarrow> nat \<Rightarrow> real" where
  "sum_off acts thr boards t f r c k =
     (\<Sum>b<shape acts ! 1. \<Sum>l<shape acts ! 2.
        elems boards [b, l, r, c, k] * (if active acts thr t f b l then 0 else 1))"

text \<open>
  \<open>add_slice acc s e g\<close>: the tensor \<open>acc\<close> with \<open>g\<close> added on the features \<open>s \<le> f < e\<close>,
  where \<open>g\<close> is read at the index within the slice.
\<close>

definition add_slice :: "real tensor \<Rightarrow> nat \<Rightarrow> nat \<Rightarrow> (nat list \<Rightarrow> real) \<Rightarrow> real tensor" where
  "add_slice acc s e g =
     \<lparr>shape = shape acc,
      elems = \<lambda>idx. if in_range (shape acc) idx \<and> s \<le> idx ! 1 \<and> idx ! 1 < e
                     then elems acc idx + g (idx[1 := idx ! 1 - s]) else elems acc idx\<rparr>"

definition add_counts :: "real tensor \<Rightarrow> nat \<Rightarrow> nat \<Rightarrow> (nat \<Rightarrow> nat \<Rightarrow> real) \<Rightarrow> real tensor" where
  "add_counts acc s e g = add_slice acc s e (\<lambda>idx. g (idx ! 0) (idx ! 1))"

definition add_sums ::
  "real tensor \<Rightarrow> nat \<Rightarrow> nat \<Rightarrow> (nat \<Rightarrow> nat \<Rightarrow> nat \<Rightarrow> nat \<Rightarrow> nat \<Rightarrow> real) \<Rightarrow> real tensor" where
  "add_sums acc s e g =
     add_slice acc s e (\<lambda>idx. g (idx ! 0) (idx ! 1) (idx ! 2) (idx ! 3) (idx ! 4))"

text \<open>The store after the loop body for one attribute function, and after a whole call.\<close>

definition accumulate_spec ::
  "real tensor \<Rightarrow> real tensor \<Rightarrow> real tensor \<Rightarrow> nat \<Rightarrow> nat \<Rightarrow> entry \<Rightarrow> heap \<Rightarrow> heap" where
  "accumulate_spec acts thr boards s e ent h =
     h\<lparr>cells := (cells h)
        (on ent := add_sums (cells h (on ent)) s e (sum_on acts thr boards),
         off ent := add_sums (cells h (off ent)) s e (sum_off acts thr boards),
         on_count ent := add_counts (cells h (on_count ent)) s e (count_on acts thr),
         off_count ent := add_counts (cells h (off_count ent)) s e (count_off acts thr))\<rparr>"

definition function_spec ::
  "results \<Rightarrow> real tensor \<Rightarrow> real tensor \<Rightarrow> (string \<rightharpoonup> real tensor) \<Rightarrow> nat \<Rightarrow> nat \<Rightarrow>
   custom_function \<Rightarrow> heap \<Rightarrow> heap" where
  "function_spec results acts thr bd s e cf h =
     (case (results cf, bd cf) of
        (Some ent, Some boards) \<Rightarrow> accumulate_spec acts thr boards s e ent h
      | _ \<Rightarrow> h)"

definition call_spec ::
  "results \<Rightarrow> custom_function list \<Rightarrow> real tensor \<Rightarrow> real tensor \<Rightarrow> (string \<rightharpoonup> real tensor) \<Rightarrow>
   nat \<Rightarrow> nat \<Rightarrow> heap \<Rightarrow> heap" where
  "call_spec results cfs acts thr bd s e h = fold (function_spec results acts thr bd s e) cfs h"

subsection \<open>Well-formed accumulators and calls\<close>

text \<open>
  The board geometry of an attribute function: rows, columns and classes. The accumulators of
  a list of attribute functions are well formed, for \<open>T\<close> thresholds and \<open>N\<close> features, when
  each function has its four tensors at four different addresses, with the shapes
  (T, N, rows, cols, classes) and (T, N), and different functions share no tensor.
\<close>

type_synonym geometry = "custom_function \<Rightarrow> nat \<times> nat \<times> nat"

definition geometry :: "'c env \<Rightarrow> geometry" where
  "geometry ev cf =
     (case config_lookup ev cf of
        None \<Rightarrow> (0, 0, 0)
      | Some config \<Rightarrow> (num_rows ev config, num_cols ev config, get_num_classes ev config))"

definition wf_entry :: "nat \<Rightarrow> nat \<Rightarrow> nat \<times> nat \<times> nat \<Rightarrow> heap \<Rightarrow> entry \<Rightarrow> bool" where
  "wf_entry T N g h ent \<longleftrightarrow>
     (case g of (R, C, K) \<Rightarrow>
        distinct [on ent, off ent, on_count ent, off_count ent] \<and>
        shape (cells h (on ent)) = [T, N, R, C, K] \<and>
        shape (cells h (off ent)) = [T, N, R, C, K] \<and>
        shape (cells h (on_count ent)) = [T, N] \<and>
        shape (cells h (off_count ent)) = [T, N])"

definition wf_state :: "geometry \<Rightarrow> custom_function list \<Rightarrow> nat \<Rightarrow> nat \<Rightarrow> results \<Rightarrow> heap \<Rightarrow> bool" where
  "wf_state geom cfs T N results h \<longleftrightarrow>
     (\<forall>cf\<in>set cfs. \<exists>ent. results cf = Some ent \<and> wf_entry T N (geom cf) h ent) \<and>
     (\<forall>cf1\<in>set cfs. \<forall>cf2\<in>set cfs. cf1 \<noteq> cf2 \<longrightarrow>
        (\<forall>e1 e2. results cf1 = Some e1 \<longrightarrow> results cf2 = Some e2 \<longrightarrow>
           entry_addrs e1 \<inter> entry_addrs e2 = {}))"

text \<open>
  A call is well formed for the feature range \<open>[s, e)\<close> when the range lies within the \<open>N\<close>
  features, the activations have shape (e - s, B, L) and every attribute function has a board
  tensor of shape (B, L, rows, cols, classes).
\<close>

definition wf_call ::
  "geometry \<Rightarrow> custom_function list \<Rightarrow> nat \<Rightarrow> real tensor \<Rightarrow> (string \<rightharpoonup> real tensor) \<Rightarrow>
   nat \<Rightarrow> nat \<Rightarrow> bool" where
  "wf_call geom cfs N acts bd s e \<longleftrightarrow>
     s \<le> e \<and> e \<le> N \<and> length (shape acts) = 3 \<and> shape acts ! 0 = e - s \<and>
     (\<forall>cf\<in>set cfs. \<exists>boards. bd cf = Some boards \<and>
        (case geom cf of (R, C, K) \<Rightarrow> shape boards = [shape acts ! 1, shape acts ! 2, R, C, K]))"

subsection \<open>The state after initialisation\<close>

definition zero_entry :: "nat \<Rightarrow> nat \<Rightarrow> nat \<times> nat \<times> nat \<Rightarrow> heap \<Rightarrow> entry \<Rightarrow> bool" where
  "zero_entry T N g h ent \<longleftrightarrow>
     (case g of (R, C, K) \<Rightarrow>
        cells h (on ent) = zeros [T, N, R, C, K] \<and> cells h (off ent) = zeros [T, N, R, C, K] \<and>
        cells h (on_count ent) = zeros [T, N] \<and> cells h (off_count ent) = zeros [T, N])"

definition init_inv :: "'c env \<Rightarrow> nat \<Rightarrow> nat \<Rightarrow> results \<Rightarrow> heap \<Rightarrow> bool" where
  "init_inv ev T N results h \<longleftrightarrow>
     (\<forall>cf ent. results cf = Some ent \<longrightarrow>
        cf \<in> dom (config_lookup ev) \<and>
        distinct [on ent, off ent, on_count ent, off_count ent] \<and>
        zero_entry T N (geometry ev cf) h ent \<and>
        (\<forall>a\<in>entry_addrs ent. a < next_free h)) \<and>
     (\<forall>cf1 cf2 e1 e2. cf1 \<noteq> cf2 \<longrightarrow> results cf1 = Some e1 \<longrightarrow> results cf2 = Some e2 \<longrightarrow>
        entry_addrs e1 \<inter> entry_addrs e2 = {})"

subsection \<open>Sequences of calls\<close>

text \<open>
  The arguments of one call of \<^verbatim>\<open>aggregate_batch_statistics\<close> that change from call to
  call; the results dictionary, the attribute functions and the thresholds are those of the
  run. \<open>accumulate_calls\<close> makes the calls of a list one after the other, as the two loops of
  \<^verbatim>\<open>aggregate_statistics\<close> do.
\<close>

record call =
  call_activations :: "real tensor"
  call_batch_data :: "string \<rightharpoonup> real tensor"
  call_f_start :: int
  call_f_end :: int
  call_f_batch_size :: nat

definition accumulate_calls ::
  "results \<Rightarrow> custom_function list \<Rightarrow> real tensor \<Rightarrow> call list \<Rightarrow> heap \<Rightarrow> error + results \<times> heap" where
  "accumulate_calls results cfs thr calls h =
     for_each
       (\<lambda>c st. aggregate_batch_statistics (fst st) cfs (call_activations c) thr (call_batch_data c)
                  (call_f_start c) (call_f_end c) (call_f_batch_size c) (snd st))
       calls (results, h)"

text \<open>
  A call with a feature range within the \<open>N\<close> features whose tensors have exactly the shapes
  of the range and of one another (nothing is broadcast).
\<close>

definition exact_call :: "geometry \<Rightarrow> custom_function list \<Rightarrow> nat \<Rightarrow> call \<Rightarrow> bool" where
  "exact_call geom cfs N c \<longleftrightarrow>
     0 \<le> call_f_start c \<and> 0 \<le> call_f_end c \<and>
     call_f_batch_size c = nat (call_f_end c - call_f_start c) \<and>
     wf_call geom cfs N (call_activations c) (call_batch_data c)
       (nat (call_f_start c)) (nat (call_f_end c))"

text \<open>The positions of a call (batch size times sequence length), and the features it covers.\<close>

definition positions :: "call \<Rightarrow> nat" where
  "positions c = shape (call_activations c) ! 1 * shape (call_activations c) ! 2"

definition covers :: "call \<Rightarrow> nat \<Rightarrow> bool" where
  "covers c f \<longleftrightarrow> call_f_start c \<le> int f \<and> int f < call_f_end c"

definition calls_spec ::
  "results \<Rightarrow> custom_function list \<Rightarrow> real tensor \<Rightarrow> call list \<Rightarrow> heap \<Rightarrow> heap" where
  "calls_spec results cfs thr calls h =
     fold (\<lambda>c. call_spec results cfs (call_activations c) thr (call_batch_data c)
                 (nat (call_f_start c)) (nat (call_f_end c))) calls h"

text \<open>
  A board tensor of shape (B, L, rows, cols, classes) is one-hot when every position and
  cell has exactly one class entry equal to 1 and all others 0; it is at most one-hot when
  some positions may have all class entries 0 instead.
\<close>

definition one_hot_at :: "real tensor \<Rightarrow> nat \<Rightarrow> nat \<Rightarrow> nat \<Rightarrow> nat \<Rightarrow> bool" where
  "one_hot_at boards b l r c \<longleftrightarrow>
     (\<exists>k<shape boards ! 4. elems boards [b, l, r, c, k] = 1 \<and>
        (\<forall>k'<shape boards ! 4. k' \<noteq> k \<longrightarrow> elems boards [b, l, r, c, k'] = 0))"

definition zero_at :: "real tensor \<Rightarrow> nat \<Rightarrow> nat \<Rightarrow> nat \<Rightarrow> nat \<Rightarrow> bool" where
  "zero_at boards b l r c \<longleftrightarrow> (\<forall>k<shape boards ! 4. elems boards [b, l, r, c, k] = 0)"

definition one_hot :: "real tensor \<Rightarrow> bool" where
  "one_hot boards \<longleftrightarrow>
     (\<forall>b<shape boards ! 0. \<forall>l<shape boards ! 1. \<forall>r<shape boards ! 2. \<forall>c<shape boards ! 3.
        one_hot_at boards b l r c)"

definition at_most_one_hot :: "real tensor \<Rightarrow> bool" where
  "at_most_one_hot boards \<longleftrightarrow>
     (\<forall>b<shape boards ! 0. \<forall>l<shape boards ! 1. \<forall>r<shape boards ! 2. \<forall>c<shape boards ! 3.
        one_hot_at boards b l r c \<or> zero_at boards b l r c)"

subsection \<open>The same with float32 accumulators\<close>

definition add_slice_f32 :: "real tensor \<Rightarrow> nat \<Rightarrow> nat \<Rightarrow> (nat list \<Rightarrow> real) \<Rightarrow> real tensor" where
  "add_slice_f32 acc s e g =
     \<lparr>shape = shape acc,
      elems = \<lambda>idx. if in_range (shape acc) idx \<and> s \<le> idx ! 1 \<and> idx ! 1 < e
                     then float32 (elems acc idx + float32 (g (idx[1 := idx ! 1 - s])))
                     else elems acc idx\<rparr>"

definition add_counts_f32 :: "real tensor \<Rightarrow> nat \<Rightarrow> nat \<Rightarrow> (nat \<Rightarrow> nat \<Rightarrow> real) \<Rightarrow> real tensor" where
  "add_counts_f32 acc s e g = add_slice_f32 acc s e (\<lambda>idx. g (idx ! 0) (idx ! 1))"

definition add_sums_f32 ::
  "real tensor \<Rightarrow> nat \<Rightarrow> nat \<Rightarrow> (nat \<Rightarrow> nat \<Rightarrow> nat \<Rightarrow> nat \<Rightarrow> nat \<Rightarrow> real) \<Rightarrow> real tensor" where
  "add_sums_f32 acc s e g =
     add_slice_f32 acc s e (\<lambda>idx. g (idx ! 0) (idx ! 1) (idx ! 2) (idx ! 3) (idx ! 4))"

definition accumulate_spec_f32 ::
  "real tensor \<Rightarrow> real tensor \<Rightarrow> real tensor \<Rightarrow> nat \<Rightarrow> nat \<Rightarrow> entry \<Rightarrow> heap \<Rightarrow> heap" where
  "accumulate_spec_f32 acts thr boards s e ent h =
     h\<lparr>cells := (cells h)
        (on ent := add_sums_f32 (cells h (on ent)) s e (sum_on acts thr boards),
         off ent := add_sums_f32 (cells h (off ent)) s e (sum_off acts thr boards),
         on_count ent := add_counts_f32 (cells h (on_count ent)) s e (count_on acts thr),
         off_count ent := add_counts_f32 (cells h (off_count ent)) s e (count_off acts thr))\<rparr>"

definition function_spec_f32 ::
  "results \<Rightarrow> real tensor \<Rightarrow> real tensor \<Rightarrow> (string \<rightharpoonup> real tensor) \<Rightarrow> nat \<Rightarrow> nat \<Rightarrow>
   custom_function \<Rightarrow> heap \<Rightarrow> heap" where
  "function_spec_f32 results acts thr bd s e cf h =
     (case (results cf, bd cf) of
        (Some ent, Some boards) \<Rightarrow> accumulate_spec_f32 acts thr boards s e ent h
      | _ \<Rightarrow> h)"

definition call_spec_f32 ::
  "results \<Rightarrow> custom_function list \<Rightarrow> real tensor \<Rightarrow> real tensor \<Rightarrow> (string \<rightharpoonup> real tensor) \<Rightarrow>
   nat \<Rightarrow> nat \<Rightarrow> heap \<Rightarrow> heap" where
  "call_spec_f32 results cfs acts thr bd s e h =
     fold (function_spec_f32 results acts thr bd s e) cfs h"

definition accumulate_calls_f32 ::
  "results \<Rightarrow> custom_function list \<Rightarrow> real tensor \<Rightarrow> call list \<Rightarrow> heap \<Rightarrow> error + results \<times> heap" where
  "accumulate_calls_f32 results cfs thr calls h =
     for_each
       (\<lambda>c st. aggregate_batch_statistics_f32 (fst st) cfs (call_activations c) thr
                  (call_batch_data c) (call_f_start c) (call_f_end c) (call_f_batch_size c)
                  (snd st))
       calls (results, h)"

definition calls_spec_f32 ::
  "results \<Rightarrow> custom_function list \<Rightarrow> real tensor \<Rightarrow> call list \<Rightarrow> heap \<Rightarrow> heap" where
  "calls_spec_f32 results cfs thr calls h =
     fold (\<lambda>c. call_spec_f32 results cfs (call_activations c) thr (call_batch_data c)
                 (nat (call_f_start c)) (nat (call_f_end c))) calls h"

text \<open>The positions of the calls of a list that cover the feature \<open>f\<close>.\<close>

definition positions_covering :: "call list \<Rightarrow> nat \<Rightarrow> nat" where
  "positions_covering calls f = (\<Sum>c\<leftarrow>calls. if covers c f then positions c else 0)"

subsection \<open>Splitting a call\<close>

text \<open>
  \<open>take_axis ax k a\<close> and \<open>drop_axis ax k a\<close> are the two parts of the tensor \<open>a\<close> cut along the
  axis \<open>ax\<close> after \<open>k\<close> entries (\<^verbatim>\<open>a[..., :k, ...]\<close> and \<^verbatim>\<open>a[..., k:, ...]\<close>). A call is split
  along the batch axis by cutting the activations (axis 1) and every board tensor (axis 0),
  and along the feature axis by cutting the activations (axis 0) and the feature range.
\<close>

definition take_axis :: "nat \<Rightarrow> nat \<Rightarrow> 'a tensor \<Rightarrow> 'a tensor" where
  "take_axis ax k a = \<lparr>shape = (shape a)[ax := k], elems = elems a\<rparr>"

definition drop_axis :: "nat \<Rightarrow> nat \<Rightarrow> 'a tensor \<Rightarrow> 'a tensor" where
  "drop_axis ax k a =
     \<lparr>shape = (shape a)[ax := shape a ! ax - k], elems = \<lambda>idx. elems a (idx[ax := idx ! ax + k])\<rparr>"

definition batch_lo :: "nat \<Rightarrow> call \<Rightarrow> call" where
  "batch_lo k c =
     c\<lparr>call_activations := take_axis 1 k (call_activations c),
       call_batch_data := (\<lambda>cf. map_option (take_axis 0 k) (call_batch_data c cf))\<rparr>"

definition batch_hi :: "nat \<Rightarrow> call \<Rightarrow> call" where
  "batch_hi k c =
     c\<lparr>call_activations := drop_axis 1 k (call_activations c),
       call_batch_data := (\<lambda>cf. map_option (drop_axis 0 k) (call_batch_data c cf))\<rparr>"

definition feature_lo :: "nat \<Rightarrow> call \<Rightarrow> call" where
  "feature_lo m c =
     c\<lparr>call_activations := take_axis 0 (m - nat (call_f_start c)) (call_activations c),
       call_f_end := int m,
       call_f_batch_size := m - nat (call_f_start c)\<rparr>"

definition feature_hi :: "nat \<Rightarrow> call \<Rightarrow> call" where
  "feature_hi m c =
     c\<lparr>call_activations := drop_axis 0 (m - nat (call_f_start c)) (call_activations c),
       call_f_start := int m,
       call_f_batch_size := nat (call_f_end c) - m\<rparr>"

text \<open>
  What a call does to the tensor at one address: the attribute function that owns the
  address, what the call adds to that tensor, and the tensor after the call.
\<close>

definition owner :: "results \<Rightarrow> custom_function list \<Rightarrow> addr \<Rightarrow> custom_function option" where
  "owner results cfs a =
     find (\<lambda>cf. case results cf of None \<Rightarrow> False | Some ent \<Rightarrow> a \<in> entry_addrs ent) cfs"

definition entry_delta ::
  "real tensor \<Rightarrow> real tensor \<Rightarrow> real tensor \<Rightarrow> entry \<Rightarrow> addr \<Rightarrow> nat list \<Rightarrow> real" where
  "entry_delta acts thr boards ent a idx =
     (if a = on ent then sum_on acts thr boards (idx ! 0) (idx ! 1) (idx ! 2) (idx ! 3) (idx ! 4)
      else if a = off ent then sum_off acts thr boards (idx ! 0) (idx ! 1) (idx ! 2) (idx ! 3) (idx ! 4)
      else if a = on_count ent then count_on acts thr (idx ! 0) (idx ! 1)
      else count_off acts thr (idx ! 0) (idx ! 1))"

definition cell_update ::
  "results \<Rightarrow> custom_function list \<Rightarrow> real tensor \<Rightarrow> call \<Rightarrow> addr \<Rightarrow> real tensor \<Rightarrow> real tensor" where
  "cell_update results cfs thr c a t =
     (case owner results cfs a of
        None \<Rightarrow> t
      | Some cf \<Rightarrow>
          (case (results cf, call_batch_data c cf) of
             (Some ent, Some boards) \<Rightarrow>
               add_slice t (nat (call_f_start c)) (nat (call_f_end c))
                 (entry_delta (call_activations c) thr boards ent a)
           | _ \<Rightarrow> t))"

subsection \<open>A small run, used to instantiate the theorems\<close>

text \<open>
  One attribute function with a 1 x 1 board and two classes, two thresholds (0.2 and 0.5),
  two features and one input batch of one game with two positions.
\<close>

definition ex_boards :: "real tensor" where
  "ex_boards = \<lparr>shape = [1, 2, 1, 1, 2], elems = \<lambda>idx. if idx ! 4 = idx ! 1 then 1 else 0\<rparr>"

definition ex_acts :: "real tensor" where
  "ex_acts =
     \<lparr>shape = [2, 1, 2],
      elems = \<lambda>idx. if idx ! 0 = 0 then (if idx ! 2 = 0 then 3 / 10 else 7 / 10)
                     else (if idx ! 2 = 0 then 1 / 2 else 1 / 10)\<rparr>"

definition ex_thr :: "real tensor" where
  "ex_thr = \<lparr>shape = [2, 1, 1, 1], elems = \<lambda>idx. if idx ! 0 = 0 then 2 / 10 else 1 / 2\<rparr>"

definition ex_env :: "unit env" where
  "ex_env =
     \<lparr>config_lookup = [''pin'' \<mapsto> ()],
      num_rows = \<lambda>c. 1, num_cols = \<lambda>c. 1, get_num_classes = \<lambda>c. 2,
      one_hot_boards = \<lambda>f inputs. ex_boards,
      module_device = Some ''cpu'',
      device_ok = \<lambda>d. d = ''cpu'',
      pickle_load = \<lambda>path.
        if path = ''data.pkl''
        then Inr \<lparr>ds_tensors = [(''pin'', ex_boards)], ds_pgn_strings = Some ['';1.e4 e5'']\<rparr>
        else Inl OSError,
      get_ae_bundle = \<lambda>autoencoder_path d data' batch_size model_path.
        Inr \<lparr>bundle_dictionary_size = 2, bundle_activations = \<lambda>inputs. ex_acts\<rparr>,
      pgn_strings = ['';1.e4 e5''],
      data = [''pin'' \<mapsto> ex_boards],
      dictionary_size = 2,
      collect_activations_batch = \<lambda>inputs. ex_acts\<rparr>"

definition ex_heap :: heap where
  "ex_heap = \<lparr>cells = \<lambda>a. zeros [], next_free = 0\<rparr>"

definition ex_call :: call where
  "ex_call =
     \<lparr>call_activations = ex_acts, call_batch_data = [''pin'' \<mapsto> ex_boards],
      call_f_start = 0, call_f_end = 2, call_f_batch_size = 2\<rparr>"

definition ex_run_state :: run_state where
  "ex_run_state = \<lparr>st_heap = ex_heap, processed = [], results_pkl = None\<rparr>"

text \<open>
  A run with three features and a batch size of two: one input batch of two games with one
  position each, every activation above every threshold.
\<close>

definition ex3_boards :: "real tensor" where
  "ex3_boards = \<lparr>shape = [2, 1, 1, 1, 2], elems = \<lambda>idx. if idx ! 4 = idx ! 0 then 1 else 0\<rparr>"

definition ex3_acts :: "real tensor" where
  "ex3_acts = \<lparr>shape = [3, 2, 1], elems = \<lambda>idx. 1\<rparr>"

definition ex3_env :: "unit env" where
  "ex3_env =
     \<lparr>config_lookup = [''pin'' \<mapsto> ()],
      num_rows = \<lambda>c. 1, num_cols = \<lambda>c. 1, get_num_classes = \<lambda>c. 2,
      one_hot_boards = \<lambda>f inputs. ex3_boards,
      module_device = Some ''cpu'',
      device_ok = \<lambda>d. d = ''cpu'',
      pickle_load = \<lambda>path.
        if path = ''data.pkl''
        then Inr \<lparr>ds_tensors = [(''pin'', ex3_boards)],
                  ds_pgn_strings = Some ['';1.e4 e5'', '';1.d4 d5'']\<rparr>
        else Inl OSError,
      get_ae_bundle = \<lambda>autoencoder_path d data' batch_size model_path.
        Inr \<lparr>bundle_dictionary_size = 3, bundle_activations = \<lambda>inputs. ex3_acts\<rparr>,
      pgn_strings = ['';1.e4 e5'', '';1.d4 d5''],
      data = [''pin'' \<mapsto> ex3_boards],
      dictionary_size = 3,
      collect_activations_batch = \<lambda>inputs. ex3_acts\<rparr>"

definition ex3_call :: call where
  "ex3_call =
     \<lparr>call_activations = ex3_acts, call_batch_data = [''pin'' \<mapsto> ex3_boards],
      call_f_start = 0, call_f_end = 3, call_f_batch_size = 3\<rparr>"

text \<open>
  Two calls for one feature whose positions add up to \<open>2 ^ 24 + 1\<close>: a batch of \<open>2 ^ 24\<close>
  positions whose boards all have class 0, then a batch of one position whose board has
  class 1. Every activation is above both thresholds.
\<close>

definition big_call :: call where
  "big_call =
     \<lparr>call_activations = \<lparr>shape = [1, 16777216, 1], elems = \<lambda>idx. 1\<rparr>,
      call_batch_data =
        [''pin'' \<mapsto> \<lparr>shape = [16777216, 1, 1, 1, 2], elems = \<lambda>idx. if idx ! 4 = 0 then 1 else 0\<rparr>],
      call_f_start = 0, call_f_end = 1, call_f_batch_size = 1\<rparr>"

definition one_call :: call where
  "one_call =
     \<lparr>call_activations = \<lparr>shape = [1, 1, 1], elems = \<lambda>idx. 1\<rparr>,
      call_batch_data =
        [''pin'' \<mapsto> \<lparr>shape = [1, 1, 1, 1, 2], elems = \<lambda>idx. if idx ! 4 = 1 then 1 else 0\<rparr>],
      call_f_start = 0, call_f_end = 1, call_f_batch_size = 1\<rparr>"

section \<open>Lemmas\<close>

subsection \<open>Sequencing and the frame of a call\<close>



lemma ebind_Inr [simp]: "ebind (Inr x) f = f x" by (simp add: ebind_def)

lemma ebind_Inl [simp]: "ebind (Inl e) f = Inl e" by (simp add: ebind_def)

lemma ebind_eq_Inr: "ebind m f = Inr y \<longleftrightarrow> (\<exists>x. m = Inr x \<and> f x = Inr y)"
  by (cases m) simp_all

lemma slice_index_nonneg: "0 \<le> i \<Longrightarrow> slice_index n i = min (nat i) n"
  by (simp add: slice_index_def)

lemma iadd_slice_shape: "iadd_slice k acc s e rhs = Inr t \<Longrightarrow> shape t = shape acc"
  by (auto simp: iadd_slice_def Let_def split: if_splits)

lemma same_outside_refl: "same_outside s e t t" by (simp add: same_outside_def)

lemma same_outside_trans:
  "same_outside s e t t' \<Longrightarrow> same_outside s e t' t'' \<Longrightarrow> same_outside s e t t''"
  by (simp add: same_outside_def)

lemma iadd_slice_same_outside: "iadd_slice k acc s e rhs = Inr t \<Longrightarrow> same_outside s e acc t"
  by (auto simp: iadd_slice_def Let_def same_outside_def split: if_splits)

lemma same_outside_interval:
  assumes "same_outside s e t t'" "0 \<le> s" "0 \<le> e"
    and "\<not> (s \<le> int (idx ! 1) \<and> int (idx ! 1) < e)"
  shows "elems t' idx = elems t idx"
proof -
  have "\<not> (slice_index (shape t ! 1) s \<le> idx ! 1 \<and> idx ! 1 < slice_index (shape t ! 1) e)"
    using assms(2-4) by (auto simp: slice_index_nonneg)
  with assms(1) show ?thesis by (simp add: same_outside_def)
qed

lemma heap_frame_refl: "heap_frame s e A h h"
  by (simp add: heap_frame_def same_outside_refl)

lemma heap_frame_trans:
  "heap_frame s e A h h' \<Longrightarrow> heap_frame s e A h' h'' \<Longrightarrow> heap_frame s e A h h''"
  unfolding heap_frame_def by (metis same_outside_trans)

lemma heap_frame_mono: "heap_frame s e A h h' \<Longrightarrow> A \<subseteq> B \<Longrightarrow> heap_frame s e B h h'"
  unfolding heap_frame_def by blast

lemma heap_frame_store:
  assumes "iadd_slice k (cells h a) s e rhs = Inr t" "a \<in> A"
  shows "heap_frame s e A h (store a t h)"
  using iadd_slice_same_outside[OF assms(1)] assms(2)
  by (auto simp: heap_frame_def store_def same_outside_refl)

lemma accumulate_function_frame:
  assumes run: "accumulate_function ai ac oc thr bd s e fbs cf (results, h) = Inr (results', h')"
  shows "results' = results \<and>
         (\<exists>ent. results cf = Some ent \<and> heap_frame s e (entry_addrs ent) h h')"
proof -
  from run obtain ent where ent: "results cf = Some ent"
    by (auto simp: accumulate_function_def split: option.splits)
  have upd: "results(cf \<mapsto> ent) = results"
    using ent by (rule fun_upd_idem)
  from run ent have "\<exists>r1 r2 t1 t2 t3 t4.
    iadd_slice 5 (cells h (on ent)) s e r1 = Inr t1 \<and>
    iadd_slice 5 (cells (store (on ent) t1 h) (off ent)) s e r2 = Inr t2 \<and>
    iadd_slice 2 (cells (store (off ent) t2 (store (on ent) t1 h)) (on_count ent)) s e ac = Inr t3 \<and>
    iadd_slice 2 (cells (store (on_count ent) t3 (store (off ent) t2 (store (on ent) t1 h)))
           (off_count ent)) s e oc = Inr t4 \<and>
    results' = results \<and>
    h' = store (off_count ent) t4 (store (on_count ent) t3 (store (off ent) t2 (store (on ent) t1 h)))"
    unfolding accumulate_function_def
    by (simp add: ebind_eq_Inr Let_def upd split: option.splits) blast
  then obtain r1 r2 t1 t2 t3 t4 where
    s1: "iadd_slice 5 (cells h (on ent)) s e r1 = Inr t1" and
    s2: "iadd_slice 5 (cells (store (on ent) t1 h) (off ent)) s e r2 = Inr t2" and
    s3: "iadd_slice 2 (cells (store (off ent) t2 (store (on ent) t1 h)) (on_count ent)) s e ac = Inr t3" and
    s4: "iadd_slice 2 (cells (store (on_count ent) t3 (store (off ent) t2 (store (on ent) t1 h)))
           (off_count ent)) s e oc = Inr t4" and
    res: "results' = results" and
    h': "h' = store (off_count ent) t4 (store (on_count ent) t3 (store (off ent) t2 (store (on ent) t1 h)))"
    by blast
  let ?A = "entry_addrs ent"
  have "heap_frame s e ?A h (store (on ent) t1 h)"
    by (rule heap_frame_store[OF s1]) (simp add: entry_addrs_def)
  moreover have "heap_frame s e ?A (store (on ent) t1 h) (store (off ent) t2 (store (on ent) t1 h))"
    by (rule heap_frame_store[OF s2]) (simp add: entry_addrs_def)
  moreover have "heap_frame s e ?A (store (off ent) t2 (store (on ent) t1 h))
      (store (on_count ent) t3 (store (off ent) t2 (store (on ent) t1 h)))"
    by (rule heap_frame_store[OF s3]) (simp add: entry_addrs_def)
  moreover have "heap_frame s e ?A (store (on_count ent) t3 (store (off ent) t2 (store (on ent) t1 h))) h'"
    unfolding h' by (rule heap_frame_store[OF s4]) (simp add: entry_addrs_def)
  ultimately have "heap_frame s e ?A h h'"
    by (blast intro: heap_frame_trans)
  with res ent show ?thesis by simp
qed

lemma for_each_accumulate_frame:
  assumes "for_each (accumulate_function ai ac oc thr bd s e fbs) cfs (results, h) = Inr (results', h')"
  shows "results' = results \<and> heap_frame s e (accumulators results cfs) h h'"
  using assms
proof (induction cfs arbitrary: h)
  case Nil
  then show ?case by (simp add: heap_frame_refl)
next
  case (Cons cf cfs)
  from Cons.prems(1) obtain r1 h1 where
    step: "accumulate_function ai ac oc thr bd s e fbs cf (results, h) = Inr (r1, h1)" and
    rest: "for_each (accumulate_function ai ac oc thr bd s e fbs) cfs (r1, h1) = Inr (results', h')"
    by (auto simp: ebind_eq_Inr)
  from accumulate_function_frame[OF step] obtain ent where
    r1: "r1 = results" and ent: "results cf = Some ent" and f1: "heap_frame s e (entry_addrs ent) h h1"
    by blast
  from Cons.IH[OF rest[unfolded r1]] have
    r': "results' = results" and f2: "heap_frame s e (accumulators results cfs) h1 h'" by simp_all
  have "entry_addrs ent \<subseteq> accumulators results (cf # cfs)"
    using ent by (auto simp: accumulators_def)
  moreover have "accumulators results cfs \<subseteq> accumulators results (cf # cfs)"
    by (auto simp: accumulators_def)
  ultimately show ?case using r' f1 f2
    by (blast intro: heap_frame_trans heap_frame_mono)
qed

lemma aggregate_batch_statistics_heap_frame:
  assumes "aggregate_batch_statistics results cfs acts thr bd s e fbs h = Inr (results', h')"
  shows "results' = results \<and> heap_frame s e (accumulators results cfs) h h'"
  using assms
  by (auto simp: aggregate_batch_statistics_def ebind_eq_Inr dest: for_each_accumulate_frame)



lemma bdim_simps [simp]: "bdim n n = Some n" "bdim 1 n = Some n" "bdim n 1 = Some n" "bdim (Suc 0) n = Some n" "bdim n (Suc 0) = Some n"
  by (auto simp: bdim_def)

lemma bidx_lt [simp]: "i < d \<Longrightarrow> bidx d i = i"
  by (auto simp: bidx_def)

lemma bidx_1 [simp]: "bidx 1 i = 0" "bidx (Suc 0) i = 0"
  by (auto simp: bidx_def)

lemma in_range_Nil [simp]: "in_range [] idx \<longleftrightarrow> idx = []"
  by (simp add: in_range_def)

lemma in_range_Cons: "in_range (d # ds) idx \<longleftrightarrow> (\<exists>i is. idx = i # is \<and> i < d \<and> in_range ds is)"
  by (cases idx) (auto simp: in_range_def)

lemma in_range_Cons_Cons [simp]: "in_range (d # ds) (i # is) \<longleftrightarrow> i < d \<and> in_range ds is"
  by (simp add: in_range_def)

lemma bs_gt: "broadcast_shapes [F, B, L] [T, Suc 0, Suc 0, Suc 0] = Some [T, F, B, L]"
  by (simp add: broadcast_shapes_def pad_shape_def)

lemma bs_mul: "broadcast_shapes [T, F, B, L, R, C, K] [T, F, B, L, Suc 0, Suc 0, Suc 0] = Some [T, F, B, L, R, C, K]"
  by (simp add: broadcast_shapes_def pad_shape_def)

lemma slice_index_int [simp]: "slice_index n (int i) = min i n"
  by (simp add: slice_index_def)

lemma in_range2: "in_range [a, b] idx \<longleftrightarrow> (\<exists>i j. idx = [i, j] \<and> i < a \<and> j < b)"
  by (auto simp: in_range_Cons)

lemma in_range5: "in_range [a, b, c, d, e] idx \<longleftrightarrow>
    (\<exists>i j k l m. idx = [i, j, k, l, m] \<and> i < a \<and> j < b \<and> k < c \<and> l < d \<and> m < e)"
  by (auto simp: in_range_Cons)

lemma tensor_gt_exact:
  assumes "shape acts = [F, B, L]" "shape thr = [T, 1, 1, 1]"
  shows "tensor_gt acts thr = Inr \<lparr>shape = [T, F, B, L], elems = \<lambda>idx. bread thr idx < bread acts idx\<rparr>"
  using assms by (simp add: tensor_gt_def bs_gt)

lemma bread_acts:
  assumes "shape acts = [F, B, L]" "f < F" "b < B" "l < L"
  shows "bread acts [t, f, b, l] = elems acts [f, b, l]"
  using assms by (simp add: bread_def)

lemma bread_thr:
  assumes "shape thr = [T, 1, 1, 1]" "t < T"
  shows "bread thr [t, f, b, l] = elems thr [t, 0, 0, 0]"
  using assms by (simp add: bread_def)

lemma iadd_counts_exact:
  assumes acc: "shape acc = [T, N]" and rng: "s \<le> e" "e \<le> N"
    and rhs: "shape rhs = [T, e - s]"
    and val: "\<And>t f. t < T \<Longrightarrow> f < e - s \<Longrightarrow> elems rhs [t, f] = g t f"
  shows "iadd_slice 2 acc (int s) (int e) rhs = Inr (add_counts acc s e g)"
proof -
  have bc: "broadcastable_to (shape rhs) ([T, N][1 := min e N - min s N])"
    using rng by (simp add: rhs broadcastable_to_def min_def)
  have min: "min s N = s" "min e N = e" using rng by simp_all
  have v: "bread rhs [t, f - s] = g t (f - s)" if "t < T" "s \<le> f" "f < e" for t f
  proof -
    have "f - s < e - s" using that by arith
    then show ?thesis using that val by (simp add: bread_def rhs)
  qed
  show ?thesis
    unfolding iadd_slice_def Let_def acc
    using bc
    apply (simp add: min add_counts_def add_slice_def acc)
    apply (rule ext)
    apply (auto simp: in_range2 v)
    done
qed

lemma iadd_sums_exact:
  assumes acc: "shape acc = [T, N, R, C, K]" and rng: "s \<le> e" "e \<le> N"
    and rhs: "shape rhs = [T, e - s, R, C, K]"
    and val: "\<And>t f r c k. t < T \<Longrightarrow> f < e - s \<Longrightarrow> r < R \<Longrightarrow> c < C \<Longrightarrow> k < K \<Longrightarrow>
       elems rhs [t, f, r, c, k] = g t f r c k"
  shows "iadd_slice 5 acc (int s) (int e) rhs = Inr (add_sums acc s e g)"
proof -
  have bc: "broadcastable_to (shape rhs) ([T, N, R, C, K][1 := min e N - min s N])"
    using rng by (simp add: rhs broadcastable_to_def min_def)
  have min: "min s N = s" "min e N = e" using rng by simp_all
  have v: "bread rhs [t, f - s, r, c, k] = g t (f - s) r c k"
    if "t < T" "s \<le> f" "f < e" "r < R" "c < C" "k < K" for t f r c k
  proof -
    have "f - s < e - s" using that by arith
    then show ?thesis using that val by (simp add: bread_def rhs)
  qed
  show ?thesis
    unfolding iadd_slice_def Let_def acc
    using bc
    apply (simp add: min add_sums_def add_slice_def acc)
    apply (rule ext)
    apply (auto simp: in_range5 v)
    done
qed

lemma counts_chain:
  assumes acts: "shape acts = [F, B, L]" and thr: "shape thr = [T, 1, 1, 1]"
  shows "\<exists>ai ac oc. tensor_gt acts thr = Inr ai \<and> reduce_TFBL_TF ai = Inr ac \<and>
      reduce_TFBL_TF (tensor_not ai) = Inr oc \<and>
      ai = \<lparr>shape = [T, F, B, L], elems = \<lambda>idx. bread thr idx < bread acts idx\<rparr> \<and>
      shape ac = [T, F] \<and> shape oc = [T, F] \<and>
      (\<forall>t f. t < T \<longrightarrow> f < F \<longrightarrow> elems ac [t, f] = count_on acts thr t f) \<and>
      (\<forall>t f. t < T \<longrightarrow> f < F \<longrightarrow> elems oc [t, f] = count_off acts thr t f)"
proof -
  let ?ai = "\<lparr>shape = [T, F, B, L], elems = \<lambda>idx. bread thr idx < bread acts idx\<rparr>"
  let ?ac = "\<lparr>shape = [T, F], elems = \<lambda>idx. \<Sum>b<B. \<Sum>l<L.
      (if bread thr [idx ! 0, idx ! 1, b, l] < bread acts [idx ! 0, idx ! 1, b, l] then 1 else 0 :: real)\<rparr>"
  let ?oc = "\<lparr>shape = [T, F], elems = \<lambda>idx. \<Sum>b<B. \<Sum>l<L.
      (if \<not> bread thr [idx ! 0, idx ! 1, b, l] < bread acts [idx ! 0, idx ! 1, b, l] then 1 else 0 :: real)\<rparr>"
  have 1: "tensor_gt acts thr = Inr ?ai" by (rule tensor_gt_exact[OF acts thr])
  have 2: "reduce_TFBL_TF ?ai = Inr ?ac" by (simp add: reduce_TFBL_TF_def)
  have 3: "reduce_TFBL_TF (tensor_not ?ai) = Inr ?oc" by (simp add: reduce_TFBL_TF_def tensor_not_def)
  have 4: "elems ?ac [t, f] = count_on acts thr t f" if "t < T" "f < F" for t f
  proof -
    have "elems ?ac [t, f] = (\<Sum>b<B. \<Sum>l<L. (if active acts thr t f b l then 1 else 0))"
      by (simp, intro sum.cong refl)
         (simp add: bread_acts[OF acts that(2)] bread_thr[OF thr that(1)] active_def)
    then show ?thesis by (simp add: count_on_def acts)
  qed
  have 5: "elems ?oc [t, f] = count_off acts thr t f" if "t < T" "f < F" for t f
  proof -
    have "elems ?oc [t, f] = (\<Sum>b<B. \<Sum>l<L. (if active acts thr t f b l then 0 else 1))"
      by (simp, intro sum.cong refl)
         (simp add: bread_acts[OF acts that(2)] bread_thr[OF thr that(1)] active_def)
    then show ?thesis by (simp add: count_off_def acts)
  qed
  show ?thesis using 1 2 3 4 5 by simp
qed

lemma sums_chain:
  assumes acts: "shape acts = [F, B, L]" and thr: "shape thr = [T, 1, 1, 1]"
    and boards: "shape boards = [B, L, R, C, K]"
    and ai: "ai = \<lparr>shape = [T, F, B, L], elems = \<lambda>idx. bread thr idx < bread acts idx\<rparr>"
  shows "\<exists>b7 a7 p1 r1 p2 r2.
      repeat_BLRRC_TFBLRRC boards F T = Inr b7 \<and> index_none3 ai = Inr a7 \<and>
      tensor_mul_mask b7 a7 = Inr p1 \<and> reduce_TFBLRRC_TFRRC p1 = Inr r1 \<and>
      tensor_mul_mask b7 (tensor_not a7) = Inr p2 \<and> reduce_TFBLRRC_TFRRC p2 = Inr r2 \<and>
      shape r1 = [T, F, R, C, K] \<and> shape r2 = [T, F, R, C, K] \<and>
      (\<forall>t f r c k. t < T \<longrightarrow> f < F \<longrightarrow> r < R \<longrightarrow> c < C \<longrightarrow> k < K \<longrightarrow>
         elems r1 [t, f, r, c, k] = sum_on acts thr boards t f r c k) \<and>
      (\<forall>t f r c k. t < T \<longrightarrow> f < F \<longrightarrow> r < R \<longrightarrow> c < C \<longrightarrow> k < K \<longrightarrow>
         elems r2 [t, f, r, c, k] = sum_off acts thr boards t f r c k)"
proof -
  let ?b7 = "\<lparr>shape = [T, F, B, L, R, C, K], elems = \<lambda>idx. elems boards (drop 2 idx)\<rparr>"
  let ?a7 = "\<lparr>shape = [T, F, B, L, Suc 0, Suc 0, Suc 0], elems = \<lambda>idx. elems ai (take 4 idx @ drop 7 idx)\<rparr>"
  let ?p1 = "\<lparr>shape = [T, F, B, L, R, C, K],
              elems = \<lambda>idx. bread ?b7 idx * (if bread ?a7 idx then 1 else 0)\<rparr>"
  let ?p2 = "\<lparr>shape = [T, F, B, L, R, C, K],
              elems = \<lambda>idx. bread ?b7 idx * (if bread (tensor_not ?a7) idx then 1 else 0)\<rparr>"
  let ?r1 = "\<lparr>shape = [T, F, R, C, K], elems = \<lambda>idx. \<Sum>b<B. \<Sum>l<L.
                 elems ?p1 [idx ! 0, idx ! 1, b, l, idx ! 2, idx ! 3, idx ! 4]\<rparr>"
  let ?r2 = "\<lparr>shape = [T, F, R, C, K], elems = \<lambda>idx. \<Sum>b<B. \<Sum>l<L.
                 elems ?p2 [idx ! 0, idx ! 1, b, l, idx ! 2, idx ! 3, idx ! 4]\<rparr>"
  have 1: "repeat_BLRRC_TFBLRRC boards F T = Inr ?b7"
    by (simp add: repeat_BLRRC_TFBLRRC_def boards)
  have 2: "index_none3 ai = Inr ?a7" by (simp add: index_none3_def ai)
  have 3: "tensor_mul_mask ?b7 ?a7 = Inr ?p1" by (simp add: tensor_mul_mask_def bs_mul)
  have 4: "reduce_TFBLRRC_TFRRC ?p1 = Inr ?r1" by (simp add: reduce_TFBLRRC_TFRRC_def)
  have 5: "tensor_mul_mask ?b7 (tensor_not ?a7) = Inr ?p2"
    by (simp add: tensor_mul_mask_def bs_mul tensor_not_def)
  have 6: "reduce_TFBLRRC_TFRRC ?p2 = Inr ?r2" by (simp add: reduce_TFBLRRC_TFRRC_def)
  have pt: "bread ?b7 [t, f, b, l, r, c, k] = elems boards [b, l, r, c, k] \<and>
            bread ?a7 [t, f, b, l, r, c, k] = active acts thr t f b l"
    if "t < T" "f < F" "r < R" "c < C" "k < K" "b < B" "l < L" for t f r c k b l
    using that by (simp add: bread_def ai acts thr active_def)
  have 7: "elems ?r1 [t, f, r, c, k] = sum_on acts thr boards t f r c k"
    if "t < T" "f < F" "r < R" "c < C" "k < K" for t f r c k
  proof -
    have "elems ?r1 [t, f, r, c, k] = (\<Sum>b<B. \<Sum>l<L.
        elems boards [b, l, r, c, k] * (if active acts thr t f b l then 1 else 0))"
      by (simp del: bread_def, intro sum.cong refl) (simp add: pt[OF that])
    then show ?thesis by (simp add: sum_on_def acts)
  qed
  have 8: "elems ?r2 [t, f, r, c, k] = sum_off acts thr boards t f r c k"
    if "t < T" "f < F" "r < R" "c < C" "k < K" for t f r c k
  proof -
    have "bread (tensor_not ?a7) [t, f, b, l, r, c, k] = (\<not> active acts thr t f b l)"
      if "b < B" "l < L" for b l
      using pt[OF \<open>t < T\<close> \<open>f < F\<close> \<open>r < R\<close> \<open>c < C\<close> \<open>k < K\<close> that]
      by (simp add: bread_def tensor_not_def)
    then have "elems ?r2 [t, f, r, c, k] = (\<Sum>b<B. \<Sum>l<L.
        elems boards [b, l, r, c, k] * (if active acts thr t f b l then 0 else 1))"
      by (simp, intro sum.cong refl) (simp add: pt[OF that])
    then show ?thesis by (simp add: sum_off_def acts)
  qed
  show ?thesis
    apply (rule exI[of _ ?b7], rule exI[of _ ?a7], rule exI[of _ ?p1], rule exI[of _ ?r1],
           rule exI[of _ ?p2], rule exI[of _ ?r2])
    using 1 2 3 4 5 6 7 8 by simp
qed



lemma accumulate_function_exact:
  assumes acts: "shape acts = [e - s, B, L]" and thr: "shape thr = [T, 1, 1, 1]"
    and bd: "bd cf = Some boards" and boards: "shape boards = [B, L, R, C, K]"
    and ent: "results cf = Some ent"
    and dist: "distinct [on ent, off ent, on_count ent, off_count ent]"
    and shp: "shape (cells h (on ent)) = [T, N, R, C, K]" "shape (cells h (off ent)) = [T, N, R, C, K]"
      "shape (cells h (on_count ent)) = [T, N]" "shape (cells h (off_count ent)) = [T, N]"
    and rng: "s \<le> e" "e \<le> N"
    and ai: "tensor_gt acts thr = Inr ai" and ac: "reduce_TFBL_TF ai = Inr ac"
    and oc: "reduce_TFBL_TF (tensor_not ai) = Inr oc"
  shows "accumulate_function ai ac oc thr bd (int s) (int e) (e - s) cf (results, h) =
         Inr (results, accumulate_spec acts thr boards s e ent h)"
proof -
  from counts_chain[OF acts thr] ai ac oc have
    ai_eq: "ai = \<lparr>shape = [T, e - s, B, L], elems = \<lambda>idx. bread thr idx < bread acts idx\<rparr>" and
    sac: "shape ac = [T, e - s]" and soc: "shape oc = [T, e - s]" and
    vac: "\<And>t f. t < T \<Longrightarrow> f < e - s \<Longrightarrow> elems ac [t, f] = count_on acts thr t f" and
    voc: "\<And>t f. t < T \<Longrightarrow> f < e - s \<Longrightarrow> elems oc [t, f] = count_off acts thr t f"
    by auto
  from sums_chain[OF acts thr boards ai_eq] obtain b7 a7 p1 r1 p2 r2 where
    c1: "repeat_BLRRC_TFBLRRC boards (e - s) T = Inr b7" and c2: "index_none3 ai = Inr a7" and
    c3: "tensor_mul_mask b7 a7 = Inr p1" and c4: "reduce_TFBLRRC_TFRRC p1 = Inr r1" and
    c5: "tensor_mul_mask b7 (tensor_not a7) = Inr p2" and c6: "reduce_TFBLRRC_TFRRC p2 = Inr r2" and
    sr1: "shape r1 = [T, e - s, R, C, K]" and sr2: "shape r2 = [T, e - s, R, C, K]" and
    vr1: "\<And>t f r c k. t < T \<Longrightarrow> f < e - s \<Longrightarrow> r < R \<Longrightarrow> c < C \<Longrightarrow> k < K \<Longrightarrow>
         elems r1 [t, f, r, c, k] = sum_on acts thr boards t f r c k" and
    vr2: "\<And>t f r c k. t < T \<Longrightarrow> f < e - s \<Longrightarrow> r < R \<Longrightarrow> c < C \<Longrightarrow> k < K \<Longrightarrow>
         elems r2 [t, f, r, c, k] = sum_off acts thr boards t f r c k"
    by blast
  have len: "len_tensor thr = Inr T" by (simp add: len_tensor_def thr)
  have s1: "iadd_slice 5 (cells h (on ent)) (int s) (int e) r1 =
      Inr (add_sums (cells h (on ent)) s e (sum_on acts thr boards))"
    by (rule iadd_sums_exact[OF shp(1) rng sr1 vr1])
  have s2: "iadd_slice 5 (cells h (off ent)) (int s) (int e) r2 =
      Inr (add_sums (cells h (off ent)) s e (sum_off acts thr boards))"
    by (rule iadd_sums_exact[OF shp(2) rng sr2 vr2])
  have s3: "iadd_slice 2 (cells h (on_count ent)) (int s) (int e) ac =
      Inr (add_counts (cells h (on_count ent)) s e (count_on acts thr))"
    by (rule iadd_counts_exact[OF shp(3) rng sac vac])
  have s4: "iadd_slice 2 (cells h (off_count ent)) (int s) (int e) oc =
      Inr (add_counts (cells h (off_count ent)) s e (count_off acts thr))"
    by (rule iadd_counts_exact[OF shp(4) rng soc voc])
  have upd: "results(cf \<mapsto> ent) = results" using ent by (rule fun_upd_idem)
  show ?thesis
    unfolding accumulate_function_def
    using dist
    by (simp add: ent bd len c1 c2 c3 c4 c5 c6 Let_def store_def s1 s2 s3 s4 upd accumulate_spec_def)
qed



lemma shape_add_slice [simp]: "shape (add_slice acc s e g) = shape acc"
  by (simp add: add_slice_def)

lemma shape_add_sums [simp]: "shape (add_sums acc s e g) = shape acc"
  by (simp add: add_sums_def)

lemma shape_add_counts [simp]: "shape (add_counts acc s e g) = shape acc"
  by (simp add: add_counts_def)

lemma accumulate_spec_shape [simp]:
  "shape (cells (accumulate_spec acts thr boards s e ent h) a) = shape (cells h a)"
  by (simp add: accumulate_spec_def)

lemma accumulate_spec_next [simp]:
  "next_free (accumulate_spec acts thr boards s e ent h) = next_free h"
  by (simp add: accumulate_spec_def)

lemma accumulate_spec_other:
  "a \<notin> entry_addrs ent \<Longrightarrow> cells (accumulate_spec acts thr boards s e ent h) a = cells h a"
  by (simp add: accumulate_spec_def entry_addrs_def)

lemma function_spec_shape [simp]:
  "shape (cells (function_spec results acts thr bd s e cf h) a) = shape (cells h a)"
  by (simp add: function_spec_def split: option.splits)

lemma function_spec_next [simp]:
  "next_free (function_spec results acts thr bd s e cf h) = next_free h"
  by (simp add: function_spec_def split: option.splits)

lemma wf_state_shape_cong:
  "(\<And>a. shape (cells h' a) = shape (cells h a)) \<Longrightarrow>
   wf_state geom cfs T N results h' = wf_state geom cfs T N results h"
  by (simp add: wf_state_def wf_entry_def)

lemma wf_state_function_spec [simp]:
  "wf_state geom cfs T N results (function_spec results' acts thr bd s e cf h) =
   wf_state geom cfs T N results h"
  by (rule wf_state_shape_cong) simp

lemma call_spec_shape [simp]:
  "shape (cells (call_spec results cfs acts thr bd s e h) a) = shape (cells h a)"
  unfolding call_spec_def by (induction cfs arbitrary: h) simp_all

lemma call_spec_next [simp]:
  "next_free (call_spec results cfs acts thr bd s e h) = next_free h"
  unfolding call_spec_def by (induction cfs arbitrary: h) simp_all

lemma wf_state_call_spec [simp]:
  "wf_state geom cfs T N results (call_spec results' cfs' acts thr bd s e h) =
   wf_state geom cfs T N results h"
  by (rule wf_state_shape_cong) simp

lemma length3: "length xs = 3 \<Longrightarrow> \<exists>a b c. xs = [a, b, c]"
  by (auto simp: length_Suc_conv numeral_3_eq_3)

lemma wf_call_acts:
  assumes "wf_call geom cfs N acts bd s e"
  obtains B L where "shape acts = [e - s, B, L]" "s \<le> e" "e \<le> N"
proof -
  from assms have "length (shape acts) = 3" "shape acts ! 0 = e - s" "s \<le> e" "e \<le> N"
    by (simp_all add: wf_call_def)
  moreover from length3[OF this(1)] obtain a b c where "shape acts = [a, b, c]" by blast
  ultimately show ?thesis using that by simp
qed

lemma for_each_accumulate_exact:
  assumes wf: "wf_state geom cfs T N results h" and call: "wf_call geom cfs N acts bd s e"
    and thr: "shape thr = [T, 1, 1, 1]" and sub: "set xs \<subseteq> set cfs"
    and ai: "tensor_gt acts thr = Inr ai" and ac: "reduce_TFBL_TF ai = Inr ac"
    and oc: "reduce_TFBL_TF (tensor_not ai) = Inr oc"
  shows "for_each (accumulate_function ai ac oc thr bd (int s) (int e) (e - s)) xs (results, h) =
         Inr (results, fold (function_spec results acts thr bd s e) xs h)"
  using wf sub
proof (induction xs arbitrary: h)
  case Nil
  then show ?case by simp
next
  case (Cons cf xs)
  from Cons.prems have cf: "cf \<in> set cfs" by simp
  from call obtain B L where acts: "shape acts = [e - s, B, L]" and rng: "s \<le> e" "e \<le> N"
    by (rule wf_call_acts)
  obtain R C K where g: "geom cf = (R, C, K)" by (cases "geom cf")
  from call cf acts g obtain boards where bd: "bd cf = Some boards"
    and boards: "shape boards = [B, L, R, C, K]"
    by (auto simp: wf_call_def)
  from Cons.prems(1) cf g obtain ent where ent: "results cf = Some ent"
    and dist: "distinct [on ent, off ent, on_count ent, off_count ent]"
    and shp: "shape (cells h (on ent)) = [T, N, R, C, K]" "shape (cells h (off ent)) = [T, N, R, C, K]"
      "shape (cells h (on_count ent)) = [T, N]" "shape (cells h (off_count ent)) = [T, N]"
    by (auto simp: wf_state_def wf_entry_def)
  have step: "accumulate_function ai ac oc thr bd (int s) (int e) (e - s) cf (results, h) =
      Inr (results, function_spec results acts thr bd s e cf h)"
    using accumulate_function_exact[where bd=bd and cf=cf and results=results, OF acts thr bd boards ent dist shp rng ai ac oc]
    by (simp add: function_spec_def ent bd)
  have wf': "wf_state geom cfs T N results (function_spec results acts thr bd s e cf h)"
    using Cons.prems(1) by simp
  show ?case
    using Cons.IH[OF wf'] Cons.prems(2) by (simp add: step)
qed

lemma aggregate_batch_statistics_exact:
  assumes wf: "wf_state geom cfs T N results h" and call: "wf_call geom cfs N acts bd s e"
    and thr: "shape thr = [T, 1, 1, 1]"
  shows "aggregate_batch_statistics results cfs acts thr bd (int s) (int e) (e - s) h =
         Inr (results, call_spec results cfs acts thr bd s e h)"
proof -
  from call obtain B L where acts: "shape acts = [e - s, B, L]"
    by (rule wf_call_acts)
  from counts_chain[OF acts thr] obtain ai ac oc where
    ai: "tensor_gt acts thr = Inr ai" and ac: "reduce_TFBL_TF ai = Inr ac"
    and oc: "reduce_TFBL_TF (tensor_not ai) = Inr oc" by blast
  show ?thesis
    unfolding aggregate_batch_statistics_def call_spec_def
    using for_each_accumulate_exact[OF wf call thr subset_refl ai ac oc]
    by (simp add: ai ac oc)
qed



lemma function_spec_other:
  "a \<notin> accumulators results [cf] \<Longrightarrow> cells (function_spec results acts thr bd s e cf h) a = cells h a"
  by (auto simp: function_spec_def accumulators_def accumulate_spec_other split: option.splits)

lemma accumulators_Cons:
  "accumulators results (cf # cfs) = accumulators results [cf] \<union> accumulators results cfs"
  by (auto simp: accumulators_def)

lemma call_spec_other:
  "a \<notin> accumulators results cfs \<Longrightarrow> cells (call_spec results cfs acts thr bd s e h) a = cells h a"
  unfolding call_spec_def
proof (induction cfs arbitrary: h)
  case Nil
  then show ?case by simp
next
  case (Cons cf cfs)
  then show ?case
    by (simp add: accumulators_Cons[of results cf cfs] function_spec_other)
qed

lemma wf_state_disjoint:
  assumes wf: "wf_state geom cfs T N results h" and cf: "cf \<in> set cfs" and ent: "results cf = Some ent"
    and sub: "set xs \<subseteq> set cfs" and notin: "cf \<notin> set xs" and a: "a \<in> entry_addrs ent"
  shows "a \<notin> accumulators results xs"
proof
  assume "a \<in> accumulators results xs"
  then obtain x ent' where x: "x \<in> set xs" and ent': "results x = Some ent'" and a': "a \<in> entry_addrs ent'"
    by (auto simp: accumulators_def)
  from x notin have ne: "cf \<noteq> x" by blast
  from x sub have xin: "x \<in> set cfs" by blast
  from wf cf xin ne ent ent' have "entry_addrs ent \<inter> entry_addrs ent' = {}"
    unfolding wf_state_def by blast
  with a a' show False by blast
qed

lemma accumulate_spec_cong:
  assumes "cells h1 (on ent) = cells h (on ent)" "cells h1 (off ent) = cells h (off ent)"
    "cells h1 (on_count ent) = cells h (on_count ent)"
    "cells h1 (off_count ent) = cells h (off_count ent)"
    and "a \<in> entry_addrs ent"
  shows "cells (accumulate_spec acts thr boards s e ent h1) a =
         cells (accumulate_spec acts thr boards s e ent h) a"
  using assms by (auto simp: accumulate_spec_def entry_addrs_def)

lemma fold_function_spec_entry:
  assumes wf: "wf_state geom cfs T N results h" and dist: "distinct xs" and sub: "set xs \<subseteq> set cfs"
    and cf: "cf \<in> set xs" and ent: "results cf = Some ent" and bd: "bd cf = Some boards"
    and a: "a \<in> entry_addrs ent"
  shows "cells (fold (function_spec results acts thr bd s e) xs h) a =
         cells (accumulate_spec acts thr boards s e ent h) a"
  using wf dist sub cf
proof (induction xs arbitrary: h)
  case Nil
  then show ?case by simp
next
  case (Cons x xs)
  let ?h1 = "function_spec results acts thr bd s e x h"
  have wf1: "wf_state geom cfs T N results ?h1" using Cons.prems(1) by simp
  show ?case
  proof (cases "x = cf")
    case True
    then have h1: "?h1 = accumulate_spec acts thr boards s e ent h"
      by (simp add: function_spec_def ent bd)
    from True have "cf \<notin> set xs" using Cons.prems(2) by simp
    then have "a \<notin> accumulators results xs"
      using wf_state_disjoint[OF Cons.prems(1) _ ent _ _ a] Cons.prems(3,4) by simp
    then have "cells (fold (function_spec results acts thr bd s e) xs ?h1) a = cells ?h1 a"
      using call_spec_other[unfolded call_spec_def] by blast
    then show ?thesis unfolding fold_simps h1 by simp
  next
    case False
    then have cfxs: "cf \<in> set xs" using Cons.prems(4) by simp
    have cfin: "cf \<in> set cfs" using Cons.prems(3) cfxs by auto
    have same: "cells ?h1 b = cells h b" if "b \<in> entry_addrs ent" for b
    proof -
      have "b \<notin> accumulators results [x]"
        using wf_state_disjoint[OF Cons.prems(1) cfin ent, of "[x]" b] Cons.prems(3) False that
        by simp
      then show ?thesis by (rule function_spec_other)
    qed
    have "cells (fold (function_spec results acts thr bd s e) xs ?h1) a =
          cells (accumulate_spec acts thr boards s e ent ?h1) a"
      using Cons.IH[OF wf1] Cons.prems(2,3) cfxs by simp
    also have "\<dots> = cells (accumulate_spec acts thr boards s e ent h) a"
      by (rule accumulate_spec_cong[OF _ _ _ _ a]) (simp_all add: same entry_addrs_def)
    finally show ?thesis by simp
  qed
qed



lemma initialize_function_Inr:
  assumes "initialize_function ev (int T) (int N) cf (results, h) = Inr (results', h')"
  shows "\<exists>config d. config_lookup ev cf = Some config \<and> module_device ev = Some d \<and>
     device_ok ev d \<and>
     results' = results(cf \<mapsto> \<lparr>on = next_free h, off = next_free h + 1,
                                on_count = next_free h + 2, off_count = next_free h + 3\<rparr>) \<and>
     next_free h' = next_free h + 4 \<and>
     cells h' = (cells h)
       (next_free h := zeros [T, N, num_rows ev config, num_cols ev config, get_num_classes ev config],
        next_free h + 1 := zeros [T, N, num_rows ev config, num_cols ev config, get_num_classes ev config],
        next_free h + 2 := zeros [T, N],
        next_free h + 3 := zeros [T, N])"
  using assms
  by (auto simp: initialize_function_def to_module_device_def to_device_def alloc_def Let_def
           ebind_eq_Inr split: option.splits if_splits)

lemma initialize_function_total:
  assumes "config_lookup ev cf = Some config" "module_device ev = Some d" "device_ok ev d"
  shows "\<exists>st'. initialize_function ev (int T) (int N) cf (results, h) = Inr st'"
  using assms
  by (simp add: initialize_function_def to_module_device_def to_device_def alloc_def Let_def)

lemma init_inv_step:
  assumes inv: "init_inv ev T N results h"
    and step: "initialize_function ev (int T) (int N) cf (results, h) = Inr (results', h')"
  shows "init_inv ev T N results' h' \<and> results' cf \<noteq> None \<and>
         (\<forall>x. results x \<noteq> None \<longrightarrow> results' x \<noteq> None) \<and>
         next_free h \<le> next_free h' \<and> (\<forall>a<next_free h. cells h' a = cells h a)"
proof -
  from initialize_function_Inr[OF step] obtain config d where
    cfg: "config_lookup ev cf = Some config" and
    res: "results' = results(cf \<mapsto> \<lparr>on = next_free h, off = next_free h + 1,
                                on_count = next_free h + 2, off_count = next_free h + 3\<rparr>)" and
    nf: "next_free h' = next_free h + 4" and
    cells: "cells h' = (cells h)
       (next_free h := zeros [T, N, num_rows ev config, num_cols ev config, get_num_classes ev config],
        next_free h + 1 := zeros [T, N, num_rows ev config, num_cols ev config, get_num_classes ev config],
        next_free h + 2 := zeros [T, N],
        next_free h + 3 := zeros [T, N])"
    by blast
  have old: "cells h' a = cells h a" if "a < next_free h" for a
    using that by (simp add: cells)
  have inv1: "cf' \<in> dom (config_lookup ev) \<and>
        distinct [on ent, off ent, on_count ent, off_count ent] \<and>
        zero_entry T N (geometry ev cf') h' ent \<and>
        (\<forall>a\<in>entry_addrs ent. a < next_free h')" if "results' cf' = Some ent" for cf' ent
  proof (cases "cf' = cf")
    case True
    with that res have "ent = \<lparr>on = next_free h, off = next_free h + 1,
                                on_count = next_free h + 2, off_count = next_free h + 3\<rparr>" by simp
    then show ?thesis
      using True cfg by (simp add: zero_entry_def geometry_def cells nf entry_addrs_def dom_def)
  next
    case False
    with that res have r: "results cf' = Some ent" by simp
    with inv have a: "cf' \<in> dom (config_lookup ev)"
        "distinct [on ent, off ent, on_count ent, off_count ent]"
        "zero_entry T N (geometry ev cf') h ent" "\<forall>a\<in>entry_addrs ent. a < next_free h"
      unfolding init_inv_def by blast+
    from a(4) have lt: "on ent < next_free h" "off ent < next_free h"
        "on_count ent < next_free h" "off_count ent < next_free h"
      by (simp_all add: entry_addrs_def)
    have "zero_entry T N (geometry ev cf') h' ent"
      using a(3) lt by (simp add: zero_entry_def old split: prod.splits)
    then show ?thesis using a nf by auto
  qed
  have inv2: "entry_addrs e1 \<inter> entry_addrs e2 = {}"
    if "cf1 \<noteq> cf2" "results' cf1 = Some e1" "results' cf2 = Some e2" for cf1 cf2 e1 e2
  proof -
    have new_old: "entry_addrs \<lparr>on = next_free h, off = next_free h + 1,
                                on_count = next_free h + 2, off_count = next_free h + 3\<rparr> \<inter> entry_addrs e = {}"
      if "results x = Some e" for x e
    proof -
      from inv that have "\<forall>a\<in>entry_addrs e. a < next_free h" unfolding init_inv_def by blast
      then show ?thesis by (auto simp: entry_addrs_def)
    qed
    show ?thesis
    proof (cases "cf1 = cf")
      case True
      with that res have "e1 = \<lparr>on = next_free h, off = next_free h + 1,
                                on_count = next_free h + 2, off_count = next_free h + 3\<rparr>"
        and "results cf2 = Some e2" by auto
      then show ?thesis using new_old by blast
    next
      case False
      note c1 = this
      show ?thesis
      proof (cases "cf2 = cf")
        case True
        with that res c1 have "e2 = \<lparr>on = next_free h, off = next_free h + 1,
                                on_count = next_free h + 2, off_count = next_free h + 3\<rparr>"
          and "results cf1 = Some e1" by auto
        then show ?thesis using new_old by blast
      next
        case False
        with c1 that res have "results cf1 = Some e1" "results cf2 = Some e2" by auto
        with inv that(1) show ?thesis unfolding init_inv_def by blast
      qed
    qed
  qed
  have "init_inv ev T N results' h'"
    unfolding init_inv_def using inv1 inv2 by blast
  then show ?thesis using res nf old by simp
qed

lemma for_each_initialize:
  assumes "for_each (initialize_function ev (int T) (int N)) cfs (results, h) = Inr (results', h')"
    and "init_inv ev T N results h"
  shows "init_inv ev T N results' h' \<and> (\<forall>cf\<in>set cfs. results' cf \<noteq> None) \<and>
         (\<forall>x. results x \<noteq> None \<longrightarrow> results' x \<noteq> None) \<and>
         next_free h \<le> next_free h' \<and> (\<forall>a<next_free h. cells h' a = cells h a)"
  using assms
proof (induction cfs arbitrary: results h)
  case Nil
  then show ?case by simp
next
  case (Cons cf cfs)
  from Cons.prems(1) obtain r1 h1 where
    step: "initialize_function ev (int T) (int N) cf (results, h) = Inr (r1, h1)" and
    rest: "for_each (initialize_function ev (int T) (int N)) cfs (r1, h1) = Inr (results', h')"
    by (auto simp: ebind_eq_Inr)
  note s = init_inv_step[OF Cons.prems(2) step]
  note r = Cons.IH[OF rest conjunct1[OF s]]
  show ?case using s r by auto
qed

lemma init_inv_empty: "init_inv ev T N Map.empty h"
  by (simp add: init_inv_def)

lemma zero_entry_wf:
  "zero_entry T N g h ent \<Longrightarrow> distinct [on ent, off ent, on_count ent, off_count ent] \<Longrightarrow>
   wf_entry T N g h ent"
  by (auto simp: zero_entry_def wf_entry_def zeros_def split: prod.splits)

lemma initialize_results_dict_wf:
  assumes "initialize_results_dict ev cfs (int T) (int N) h0 = Inr (results, h)"
  shows "wf_state (geometry ev) cfs T N results h \<and>
         (\<forall>cf\<in>set cfs. \<exists>ent. results cf = Some ent \<and> zero_entry T N (geometry ev cf) h ent)"
proof -
  from for_each_initialize[OF assms[unfolded initialize_results_dict_def] init_inv_empty]
  have inv: "init_inv ev T N results h" and all: "\<forall>cf\<in>set cfs. results cf \<noteq> None" by simp_all
  have 1: "\<exists>ent. results cf = Some ent \<and> wf_entry T N (geometry ev cf) h ent \<and>
           zero_entry T N (geometry ev cf) h ent" if "cf \<in> set cfs" for cf
  proof -
    from all that obtain ent where ent: "results cf = Some ent" by auto
    with inv have "distinct [on ent, off ent, on_count ent, off_count ent]"
      "zero_entry T N (geometry ev cf) h ent" unfolding init_inv_def by blast+
    then show ?thesis using ent zero_entry_wf by blast
  qed
  have 2: "entry_addrs e1 \<inter> entry_addrs e2 = {}"
    if "cf1 \<noteq> cf2" "results cf1 = Some e1" "results cf2 = Some e2" for cf1 cf2 e1 e2
    using inv that unfolding init_inv_def by blast
  show ?thesis unfolding wf_state_def using 1 2 by blast
qed

lemma for_each_initialize_total:
  assumes "module_device ev = Some d" "device_ok ev d"
    and "\<forall>cf\<in>set cfs. cf \<in> dom (config_lookup ev)"
  shows "\<exists>st'. for_each (initialize_function ev (int T) (int N)) cfs st = Inr st'"
  using assms(3)
proof (induction cfs arbitrary: st)
  case Nil
  then show ?case by simp
next
  case (Cons cf cfs)
  obtain results h where st: "st = (results, h)" by (cases st)
  from Cons.prems obtain config where "config_lookup ev cf = Some config" by auto
  from initialize_function_total[OF this assms(1,2)] obtain st1 where
    "initialize_function ev (int T) (int N) cf (results, h) = Inr st1" by blast
  moreover have "\<exists>st2. for_each (initialize_function ev (int T) (int N)) cfs st1 = Inr st2"
    using Cons.IH[of st1] Cons.prems by simp
  then obtain st2 where
    "for_each (initialize_function ev (int T) (int N)) cfs st1 = Inr st2" by blast
  ultimately show ?case by (simp add: st)
qed

subsection \<open>The small run\<close>

lemma ex_geometry: "geometry ex_env ''pin'' = (1, 1, 2)"
  by (simp add: geometry_def ex_env_def)

lemma ex_init:
  "\<exists>results h. initialize_results_dict ex_env [''pin''] 2 2 ex_heap = Inr (results, h)"
proof -
  have "\<exists>st'. for_each (initialize_function ex_env (int 2) (int 2)) [''pin''] (Map.empty, ex_heap) = Inr st'"
    by (rule for_each_initialize_total[where ev = ex_env and d = "''cpu''"])
       (simp_all add: ex_env_def)
  then show ?thesis unfolding initialize_results_dict_def by auto
qed

lemma ex_wf_call: "wf_call (geometry ex_env) [''pin''] 2 ex_acts [''pin'' \<mapsto> ex_boards] 0 2"
  by (simp add: wf_call_def ex_geometry ex_acts_def ex_boards_def)

lemma ex_thr_shape: "shape ex_thr = [2, 1, 1, 1]"
  by (simp add: ex_thr_def)

subsection \<open>Values after a call and after a sequence of calls\<close>

lemma elems_add_counts:
  assumes "shape acc = [T, N]" "t < T" "f < N"
  shows "elems (add_counts acc s e g) [t, f] =
         elems acc [t, f] + (if s \<le> f \<and> f < e then g t (f - s) else 0)"
  using assms by (simp add: add_counts_def add_slice_def)

lemma elems_add_sums:
  assumes "shape acc = [T, N, R, C, K]" "t < T" "f < N" "r < R" "c < C" "k < K"
  shows "elems (add_sums acc s e g) [t, f, r, c, k] =
         elems acc [t, f, r, c, k] + (if s \<le> f \<and> f < e then g t (f - s) r c k else 0)"
  using assms by (simp add: add_sums_def add_slice_def)

lemma wf_state_entry:
  assumes "wf_state geom cfs T N results h" "cf \<in> set cfs" "results cf = Some ent"
  shows "wf_entry T N (geom cf) h ent"
proof -
  from assms(1,2) obtain ent' where "results cf = Some ent'" "wf_entry T N (geom cf) h ent'"
    unfolding wf_state_def by blast
  with assms(3) show ?thesis by simp
qed

lemma wf_entryD:
  assumes "wf_entry T N g h ent" "g = (R, C, K)"
  shows "distinct [on ent, off ent, on_count ent, off_count ent]"
    and "shape (cells h (on ent)) = [T, N, R, C, K]"
    and "shape (cells h (off ent)) = [T, N, R, C, K]"
    and "shape (cells h (on_count ent)) = [T, N]"
    and "shape (cells h (off_count ent)) = [T, N]"
  using assms by (simp_all add: wf_entry_def)

lemma wf_entry_distinct:
  "wf_entry T N g h ent \<Longrightarrow> distinct [on ent, off ent, on_count ent, off_count ent]"
  by (cases g) (simp add: wf_entry_def)

lemma call_spec_cells:
  assumes wf: "wf_state geom cfs T N results h" and dist: "distinct cfs"
    and cf: "cf \<in> set cfs" and ent: "results cf = Some ent" and bd: "bd cf = Some boards"
  shows "cells (call_spec results cfs acts thr bd s e h) (on ent) =
           add_sums (cells h (on ent)) s e (sum_on acts thr boards)"
    and "cells (call_spec results cfs acts thr bd s e h) (off ent) =
           add_sums (cells h (off ent)) s e (sum_off acts thr boards)"
    and "cells (call_spec results cfs acts thr bd s e h) (on_count ent) =
           add_counts (cells h (on_count ent)) s e (count_on acts thr)"
    and "cells (call_spec results cfs acts thr bd s e h) (off_count ent) =
           add_counts (cells h (off_count ent)) s e (count_off acts thr)"
proof -
  have d: "distinct [on ent, off ent, on_count ent, off_count ent]"
    by (rule wf_entry_distinct[OF wf_state_entry[OF wf cf ent]])
  have eq: "cells (call_spec results cfs acts thr bd s e h) a =
            cells (accumulate_spec acts thr boards s e ent h) a" if "a \<in> entry_addrs ent" for a
    unfolding call_spec_def
    by (rule fold_function_spec_entry[where bd=bd and cf=cf and results=results, OF wf dist subset_refl cf ent bd that])
  show "cells (call_spec results cfs acts thr bd s e h) (on ent) =
           add_sums (cells h (on ent)) s e (sum_on acts thr boards)"
    using d by (simp add: eq entry_addrs_def accumulate_spec_def)
  show "cells (call_spec results cfs acts thr bd s e h) (off ent) =
           add_sums (cells h (off ent)) s e (sum_off acts thr boards)"
    using d by (simp add: eq entry_addrs_def accumulate_spec_def)
  show "cells (call_spec results cfs acts thr bd s e h) (on_count ent) =
           add_counts (cells h (on_count ent)) s e (count_on acts thr)"
    using d by (simp add: eq entry_addrs_def accumulate_spec_def)
  show "cells (call_spec results cfs acts thr bd s e h) (off_count ent) =
           add_counts (cells h (off_count ent)) s e (count_off acts thr)"
    using d by (simp add: eq entry_addrs_def accumulate_spec_def)
qed

lemma exact_call_run:
  assumes wf: "wf_state geom cfs T N results h" and c: "exact_call geom cfs N c"
    and thr: "shape thr = [T, 1, 1, 1]"
  shows "aggregate_batch_statistics results cfs (call_activations c) thr (call_batch_data c)
           (call_f_start c) (call_f_end c) (call_f_batch_size c) h =
         Inr (results, call_spec results cfs (call_activations c) thr (call_batch_data c)
                (nat (call_f_start c)) (nat (call_f_end c)) h)"
proof -
  from c have nn: "0 \<le> call_f_start c" "0 \<le> call_f_end c"
    and fbs: "call_f_batch_size c = nat (call_f_end c - call_f_start c)"
    and call: "wf_call geom cfs N (call_activations c) (call_batch_data c)
       (nat (call_f_start c)) (nat (call_f_end c))"
    by (simp_all add: exact_call_def)
  from call have "nat (call_f_start c) \<le> nat (call_f_end c)" by (simp add: wf_call_def)
  with nn fbs have fbs': "call_f_batch_size c = nat (call_f_end c) - nat (call_f_start c)"
    by (simp add: nat_diff_distrib)
  show ?thesis
    using aggregate_batch_statistics_exact[OF wf call thr] nn by (simp add: fbs')
qed

lemma accumulate_calls_exact:
  assumes wf: "wf_state geom cfs T N results h" and calls: "\<forall>c\<in>set calls. exact_call geom cfs N c"
    and thr: "shape thr = [T, 1, 1, 1]"
  shows "accumulate_calls results cfs thr calls h = Inr (results, calls_spec results cfs thr calls h)"
  using wf calls unfolding accumulate_calls_def calls_spec_def
proof (induction calls arbitrary: h)
  case Nil
  then show ?case by simp
next
  case (Cons c calls)
  from Cons.prems(2) have c: "exact_call geom cfs N c" by simp
  note step = exact_call_run[OF Cons.prems(1) c thr]
  have wf': "wf_state geom cfs T N results
     (call_spec results cfs (call_activations c) thr (call_batch_data c)
        (nat (call_f_start c)) (nat (call_f_end c)) h)"
    using Cons.prems(1) by simp
  show ?case using Cons.IH[OF wf'] Cons.prems(2) by (simp add: step)
qed

lemma wf_state_calls_spec [simp]:
  "wf_state geom cfs T N results (calls_spec results' cfs' thr calls h) =
   wf_state geom cfs T N results h"
  unfolding calls_spec_def by (induction calls arbitrary: h) simp_all

subsection \<open>Arithmetic of the closed forms\<close>

lemma count_on_off: "count_on acts thr t f + count_off acts thr t f = real (shape acts ! 1 * shape acts ! 2)"
proof -
  have "count_on acts thr t f + count_off acts thr t f =
        (\<Sum>b<shape acts ! 1. \<Sum>l<shape acts ! 2. (1::real))"
    unfolding count_on_def count_off_def sum.distrib[symmetric]
    by (intro sum.cong refl) simp
  then show ?thesis by simp
qed

lemma count_on_mono:
  assumes "elems thr [t1, 0, 0, 0] \<le> elems thr [t2, 0, 0, 0]"
  shows "count_on acts thr t2 f \<le> count_on acts thr t1 f"
  unfolding count_on_def
  by (intro sum_mono) (use assms in \<open>auto simp: active_def\<close>)

lemma sum_on_classes:
  "(\<Sum>k<K. sum_on acts thr boards t f r c k) =
   (\<Sum>b<shape acts ! 1. \<Sum>l<shape acts ! 2.
      (\<Sum>k<K. elems boards [b, l, r, c, k]) * (if active acts thr t f b l then 1 else 0))"
proof -
  have "(\<Sum>k<K. sum_on acts thr boards t f r c k) =
        (\<Sum>b<shape acts ! 1. \<Sum>k<K. \<Sum>l<shape acts ! 2.
           elems boards [b, l, r, c, k] * (if active acts thr t f b l then 1 else 0))"
    unfolding sum_on_def by (rule sum.swap)
  also have "\<dots> = (\<Sum>b<shape acts ! 1. \<Sum>l<shape acts ! 2. \<Sum>k<K.
           elems boards [b, l, r, c, k] * (if active acts thr t f b l then 1 else 0))"
    by (intro sum.cong refl sum.swap)
  finally show ?thesis by (simp add: sum_distrib_right)
qed

lemma sum_on_classes_eq:
  assumes "\<And>b l. b < shape acts ! 1 \<Longrightarrow> l < shape acts ! 2 \<Longrightarrow> (\<Sum>k<K. elems boards [b, l, r, c, k]) = 1"
  shows "(\<Sum>k<K. sum_on acts thr boards t f r c k) = count_on acts thr t f"
  unfolding sum_on_classes count_on_def
  by (intro sum.cong refl) (simp add: assms)

lemma sum_on_classes_le:
  assumes "\<And>b l. b < shape acts ! 1 \<Longrightarrow> l < shape acts ! 2 \<Longrightarrow> (\<Sum>k<K. elems boards [b, l, r, c, k]) \<le> 1"
  shows "(\<Sum>k<K. sum_on acts thr boards t f r c k) \<le> count_on acts thr t f"
  unfolding sum_on_classes count_on_def
  by (intro sum_mono) (use assms in \<open>auto\<close>)

lemma one_hot_at_sum:
  assumes "one_hot_at boards b l r c" "shape boards ! 4 = K"
  shows "(\<Sum>k<K. elems boards [b, l, r, c, k]) = 1"
proof -
  from assms obtain k where k: "k < K" "elems boards [b, l, r, c, k] = 1"
    and z: "\<And>k'. k' < K \<Longrightarrow> k' \<noteq> k \<Longrightarrow> elems boards [b, l, r, c, k'] = 0"
    by (auto simp: one_hot_at_def)
  have "(\<Sum>k'<K. elems boards [b, l, r, c, k']) = (\<Sum>k'<K. if k' = k then 1 else 0)"
    by (intro sum.cong refl) (use k z in auto)
  also have "\<dots> = 1" using k(1) by simp
  finally show ?thesis .
qed

lemma zero_at_sum:
  assumes "zero_at boards b l r c" "shape boards ! 4 = K"
  shows "(\<Sum>k<K. elems boards [b, l, r, c, k]) = 0"
  using assms by (simp add: zero_at_def)

subsection \<open>One call, entry by entry\<close>

lemma wf_call_boards:
  assumes "wf_call geom cfs N acts bd s e" "cf \<in> set cfs" "geom cf = (R, C, K)"
  obtains boards where "bd cf = Some boards"
    "shape boards = [shape acts ! 1, shape acts ! 2, R, C, K]"
  using assms by (auto simp: wf_call_def)

lemma exact_call_covers:
  assumes "exact_call geom cfs N c"
  shows "covers c f \<longleftrightarrow> nat (call_f_start c) \<le> f \<and> f < nat (call_f_end c)"
  using assms by (auto simp: exact_call_def covers_def)

lemma call_values:
  fixes thr :: "real tensor"
  assumes wf: "wf_state geom cfs T N results h" and dist: "distinct cfs"
    and cf: "cf \<in> set cfs" and ent: "results cf = Some ent"
    and c: "exact_call geom cfs N c" and g: "geom cf = (R, C, K)"
    and bd: "call_batch_data c cf = Some boards"
    and t: "t < T" and f: "f < N"
  defines "h' \<equiv> call_spec results cfs (call_activations c) thr (call_batch_data c)
                   (nat (call_f_start c)) (nat (call_f_end c)) h"
  shows "elems (cells h' (on_count ent)) [t, f] = elems (cells h (on_count ent)) [t, f] +
           (if covers c f then count_on (call_activations c) thr t (f - nat (call_f_start c)) else 0)"
    and "elems (cells h' (off_count ent)) [t, f] = elems (cells h (off_count ent)) [t, f] +
           (if covers c f then count_off (call_activations c) thr t (f - nat (call_f_start c)) else 0)"
    and "r < R \<Longrightarrow> x < C \<Longrightarrow> k < K \<Longrightarrow>
         elems (cells h' (on ent)) [t, f, r, x, k] = elems (cells h (on ent)) [t, f, r, x, k] +
           (if covers c f
            then sum_on (call_activations c) thr boards t (f - nat (call_f_start c)) r x k else 0)"
    and "r < R \<Longrightarrow> x < C \<Longrightarrow> k < K \<Longrightarrow>
         elems (cells h' (off ent)) [t, f, r, x, k] = elems (cells h (off ent)) [t, f, r, x, k] +
           (if covers c f
            then sum_off (call_activations c) thr boards t (f - nat (call_f_start c)) r x k else 0)"
proof -
  note e = wf_entryD[OF wf_state_entry[OF wf cf ent] g]
  note cells = call_spec_cells[where bd="call_batch_data c" and cf=cf and results=results
      and acts="call_activations c" and thr=thr and s="nat (call_f_start c)"
      and e="nat (call_f_end c)", OF wf dist cf ent bd, folded h'_def]
  note cov = exact_call_covers[OF c]
  show "elems (cells h' (on_count ent)) [t, f] = elems (cells h (on_count ent)) [t, f] +
           (if covers c f then count_on (call_activations c) thr t (f - nat (call_f_start c)) else 0)"
    by (simp add: cells(3) elems_add_counts[OF e(4) t f] cov)
  show "elems (cells h' (off_count ent)) [t, f] = elems (cells h (off_count ent)) [t, f] +
           (if covers c f then count_off (call_activations c) thr t (f - nat (call_f_start c)) else 0)"
    by (simp add: cells(4) elems_add_counts[OF e(5) t f] cov)
  show "elems (cells h' (on ent)) [t, f, r, x, k] = elems (cells h (on ent)) [t, f, r, x, k] +
           (if covers c f
            then sum_on (call_activations c) thr boards t (f - nat (call_f_start c)) r x k else 0)"
    if "r < R" "x < C" "k < K"
    by (simp add: cells(1) elems_add_sums[OF e(2) t f that] cov)
  show "elems (cells h' (off ent)) [t, f, r, x, k] = elems (cells h (off ent)) [t, f, r, x, k] +
           (if covers c f
            then sum_off (call_activations c) thr boards t (f - nat (call_f_start c)) r x k else 0)"
    if "r < R" "x < C" "k < K"
    by (simp add: cells(2) elems_add_sums[OF e(3) t f that] cov)
qed

lemma exact_call_boards:
  assumes "exact_call geom cfs N c" "cf \<in> set cfs" "geom cf = (R, C, K)"
  obtains boards where "call_batch_data c cf = Some boards"
    "shape boards = [shape (call_activations c) ! 1, shape (call_activations c) ! 2, R, C, K]"
  using assms by (auto simp: exact_call_def elim: wf_call_boards)

subsection \<open>Invariants of a sequence of calls\<close>

lemma calls_spec_Cons:
  "calls_spec results cfs thr (c # calls) h =
   calls_spec results cfs thr calls
     (call_spec results cfs (call_activations c) thr (call_batch_data c)
        (nat (call_f_start c)) (nat (call_f_end c)) h)"
  by (simp add: calls_spec_def)

lemma calls_spec_Nil [simp]: "calls_spec results cfs thr [] h = h"
  by (simp add: calls_spec_def)

lemma calls_counts_total:
  assumes wf: "wf_state geom cfs T N results h" and dist: "distinct cfs"
    and calls: "\<forall>c\<in>set calls. exact_call geom cfs N c"
    and cf: "cf \<in> set cfs" and ent: "results cf = Some ent" and t: "t < T" and f: "f < N"
  shows "elems (cells (calls_spec results cfs thr calls h) (on_count ent)) [t, f] +
         elems (cells (calls_spec results cfs thr calls h) (off_count ent)) [t, f] =
         elems (cells h (on_count ent)) [t, f] + elems (cells h (off_count ent)) [t, f] +
         (\<Sum>c\<leftarrow>calls. if covers c f then real (positions c) else 0)"
  using wf calls
proof (induction calls arbitrary: h)
  case Nil
  then show ?case by simp
next
  case (Cons c calls)
  let ?h1 = "call_spec results cfs (call_activations c) thr (call_batch_data c)
        (nat (call_f_start c)) (nat (call_f_end c)) h"
  from Cons.prems(2) have c: "exact_call geom cfs N c" by simp
  obtain R C K where g: "geom cf = (R, C, K)" by (cases "geom cf")
  from exact_call_boards[OF c cf g] obtain boards where bd: "call_batch_data c cf = Some boards"
    by blast
  note v = call_values[OF Cons.prems(1) dist cf ent c g bd t f]
  have wf1: "wf_state geom cfs T N results ?h1" using Cons.prems(1) by simp
  have step: "elems (cells ?h1 (on_count ent)) [t, f] + elems (cells ?h1 (off_count ent)) [t, f] =
      elems (cells h (on_count ent)) [t, f] + elems (cells h (off_count ent)) [t, f] +
      (if covers c f then real (positions c) else 0)"
    using count_on_off[of "call_activations c" thr t "f - nat (call_f_start c)"]
    by (simp add: v(1,2) positions_def)
  show ?case
    using Cons.IH[OF wf1] Cons.prems(2) by (simp add: calls_spec_Cons step)
qed

lemma calls_counts_mono:
  assumes wf: "wf_state geom cfs T N results h" and dist: "distinct cfs"
    and calls: "\<forall>c\<in>set calls. exact_call geom cfs N c"
    and cf: "cf \<in> set cfs" and ent: "results cf = Some ent"
    and t: "t1 < T" "t2 < T" and f: "f < N"
    and le: "elems thr [t1, 0, 0, 0] \<le> elems thr [t2, 0, 0, 0]"
    and start: "elems (cells h (on_count ent)) [t2, f] \<le> elems (cells h (on_count ent)) [t1, f]"
  shows "elems (cells (calls_spec results cfs thr calls h) (on_count ent)) [t2, f] \<le>
         elems (cells (calls_spec results cfs thr calls h) (on_count ent)) [t1, f]"
  using wf calls start
proof (induction calls arbitrary: h)
  case Nil
  then show ?case by simp
next
  case (Cons c calls)
  let ?h1 = "call_spec results cfs (call_activations c) thr (call_batch_data c)
        (nat (call_f_start c)) (nat (call_f_end c)) h"
  from Cons.prems(2) have c: "exact_call geom cfs N c" by simp
  obtain R C K where g: "geom cf = (R, C, K)" by (cases "geom cf")
  from exact_call_boards[OF c cf g] obtain boards where bd: "call_batch_data c cf = Some boards"
    by blast
  have wf1: "wf_state geom cfs T N results ?h1" using Cons.prems(1) by simp
  have step: "elems (cells ?h1 (on_count ent)) [t2, f] \<le> elems (cells ?h1 (on_count ent)) [t1, f]"
    using Cons.prems(3) count_on_mono[OF le, of "call_activations c" "f - nat (call_f_start c)"]
    by (simp add: call_values(1)[OF Cons.prems(1) dist cf ent c g bd _ f] t)
  show ?case
    using Cons.IH[OF wf1 _ step] Cons.prems(2) by (simp add: calls_spec_Cons)
qed

lemma one_hot_sum:
  assumes "one_hot boards" "shape boards = [B, L, R, C, K]" "b < B" "l < L" "r < R" "c < C"
  shows "(\<Sum>k<K. elems boards [b, l, r, c, k]) = 1"
proof -
  from assms have "one_hot_at boards b l r c" by (simp add: one_hot_def)
  then show ?thesis by (rule one_hot_at_sum) (simp add: assms(2))
qed

lemma at_most_one_hot_sum:
  assumes "at_most_one_hot boards" "shape boards = [B, L, R, C, K]" "b < B" "l < L" "r < R" "c < C"
  shows "(\<Sum>k<K. elems boards [b, l, r, c, k]) \<le> 1"
proof -
  from assms have "one_hot_at boards b l r c \<or> zero_at boards b l r c"
    by (simp add: at_most_one_hot_def)
  then show ?thesis
    using one_hot_at_sum[of boards b l r c K] zero_at_sum[of boards b l r c K] assms(2) by auto
qed

lemma calls_sum_eq:
  assumes wf: "wf_state geom cfs T N results h" and dist: "distinct cfs"
    and calls: "\<forall>c\<in>set calls. exact_call geom cfs N c"
    and cf: "cf \<in> set cfs" and ent: "results cf = Some ent" and g: "geom cf = (R, C, K)"
    and t: "t < T" and f: "f < N" and r: "r < R" and x: "x < C"
    and hot: "\<forall>c\<in>set calls. \<forall>boards. call_batch_data c cf = Some boards \<longrightarrow> one_hot boards"
    and start: "(\<Sum>k<K. elems (cells h (on ent)) [t, f, r, x, k]) = elems (cells h (on_count ent)) [t, f]"
  shows "(\<Sum>k<K. elems (cells (calls_spec results cfs thr calls h) (on ent)) [t, f, r, x, k]) =
         elems (cells (calls_spec results cfs thr calls h) (on_count ent)) [t, f]"
  using wf calls hot start
proof (induction calls arbitrary: h)
  case Nil
  then show ?case by simp
next
  case (Cons c calls)
  let ?h1 = "call_spec results cfs (call_activations c) thr (call_batch_data c)
        (nat (call_f_start c)) (nat (call_f_end c)) h"
  from Cons.prems(2) have c: "exact_call geom cfs N c" by simp
  from exact_call_boards[OF c cf g] obtain boards where bd: "call_batch_data c cf = Some boards"
    and sb: "shape boards = [shape (call_activations c) ! 1, shape (call_activations c) ! 2, R, C, K]"
    by blast
  from Cons.prems(3) bd have oh: "one_hot boards" by simp
  note v = call_values[OF Cons.prems(1) dist cf ent c g bd t f]
  have wf1: "wf_state geom cfs T N results ?h1" using Cons.prems(1) by simp
  have cls: "(\<Sum>k<K. sum_on (call_activations c) thr boards t f' r x k) =
             count_on (call_activations c) thr t f'" for f'
    by (rule sum_on_classes_eq) (rule one_hot_sum[OF oh sb _ _ r x])
  have "(\<Sum>k<K. elems (cells ?h1 (on ent)) [t, f, r, x, k]) =
        (\<Sum>k<K. elems (cells h (on ent)) [t, f, r, x, k] +
           (if covers c f
            then sum_on (call_activations c) thr boards t (f - nat (call_f_start c)) r x k else 0))"
    by (intro sum.cong refl) (simp add: v(3)[OF r x])
  also have "\<dots> = elems (cells ?h1 (on_count ent)) [t, f]"
    using Cons.prems(4) by (simp add: sum.distrib cls v(1))
  finally have step: "(\<Sum>k<K. elems (cells ?h1 (on ent)) [t, f, r, x, k]) =
      elems (cells ?h1 (on_count ent)) [t, f]" .
  show ?case
    using Cons.IH[OF wf1 _ _ step] Cons.prems(2,3) by (simp add: calls_spec_Cons)
qed

lemma calls_sum_le:
  assumes wf: "wf_state geom cfs T N results h" and dist: "distinct cfs"
    and calls: "\<forall>c\<in>set calls. exact_call geom cfs N c"
    and cf: "cf \<in> set cfs" and ent: "results cf = Some ent" and g: "geom cf = (R, C, K)"
    and t: "t < T" and f: "f < N" and r: "r < R" and x: "x < C"
    and hot: "\<forall>c\<in>set calls. \<forall>boards. call_batch_data c cf = Some boards \<longrightarrow> at_most_one_hot boards"
    and start: "(\<Sum>k<K. elems (cells h (on ent)) [t, f, r, x, k]) \<le> elems (cells h (on_count ent)) [t, f]"
  shows "(\<Sum>k<K. elems (cells (calls_spec results cfs thr calls h) (on ent)) [t, f, r, x, k]) \<le>
         elems (cells (calls_spec results cfs thr calls h) (on_count ent)) [t, f]"
  using wf calls hot start
proof (induction calls arbitrary: h)
  case Nil
  then show ?case by simp
next
  case (Cons c calls)
  let ?h1 = "call_spec results cfs (call_activations c) thr (call_batch_data c)
        (nat (call_f_start c)) (nat (call_f_end c)) h"
  from Cons.prems(2) have c: "exact_call geom cfs N c" by simp
  from exact_call_boards[OF c cf g] obtain boards where bd: "call_batch_data c cf = Some boards"
    and sb: "shape boards = [shape (call_activations c) ! 1, shape (call_activations c) ! 2, R, C, K]"
    by blast
  from Cons.prems(3) bd have oh: "at_most_one_hot boards" by simp
  note v = call_values[OF Cons.prems(1) dist cf ent c g bd t f]
  have wf1: "wf_state geom cfs T N results ?h1" using Cons.prems(1) by simp
  have cls: "(\<Sum>k<K. sum_on (call_activations c) thr boards t f' r x k) \<le>
             count_on (call_activations c) thr t f'" for f'
    by (rule sum_on_classes_le) (rule at_most_one_hot_sum[OF oh sb _ _ r x])
  have "(\<Sum>k<K. elems (cells ?h1 (on ent)) [t, f, r, x, k]) =
        (\<Sum>k<K. elems (cells h (on ent)) [t, f, r, x, k] +
           (if covers c f
            then sum_on (call_activations c) thr boards t (f - nat (call_f_start c)) r x k else 0))"
    by (intro sum.cong refl) (simp add: v(3)[OF r x])
  also have "\<dots> \<le> elems (cells ?h1 (on_count ent)) [t, f]"
    using Cons.prems(4) cls[of "f - nat (call_f_start c)"] by (simp add: sum.distrib v(1))
  finally have step: "(\<Sum>k<K. elems (cells ?h1 (on ent)) [t, f, r, x, k]) \<le>
      elems (cells ?h1 (on_count ent)) [t, f]" .
  show ?case
    using Cons.IH[OF wf1 _ _ step] Cons.prems(2,3) by (simp add: calls_spec_Cons)
qed

lemma zero_entryD:
  assumes "zero_entry T N g h ent"
  shows "elems (cells h (on ent)) idx = 0" "elems (cells h (off ent)) idx = 0"
    "elems (cells h (on_count ent)) idx = 0" "elems (cells h (off_count ent)) idx = 0"
  using assms by (cases g; simp add: zero_entry_def zeros_def)+

lemma ex_exact_call: "exact_call (geometry ex_env) [''pin''] 2 ex_call"
  using ex_wf_call by (simp add: exact_call_def ex_call_def)

subsection \<open>Adding to a slice: order and splitting\<close>

lemma add_slice_commute:
  "add_slice (add_slice t s1 e1 g1) s2 e2 g2 = add_slice (add_slice t s2 e2 g2) s1 e1 g1"
  by (auto simp: add_slice_def fun_eq_iff)

lemma add_slice_twice:
  "add_slice (add_slice t s e g1) s e g2 = add_slice t s e (\<lambda>idx. g1 idx + g2 idx)"
  by (auto simp: add_slice_def fun_eq_iff)

lemma add_slice_cong:
  assumes "\<And>idx. in_range (shape t) idx \<Longrightarrow> s \<le> idx ! 1 \<Longrightarrow> idx ! 1 < e \<Longrightarrow>
     g (idx[1 := idx ! 1 - s]) = g' (idx[1 := idx ! 1 - s])"
  shows "add_slice t s e g = add_slice t s e g'"
  using assms by (auto simp: add_slice_def fun_eq_iff)

lemma add_slice_split:
  assumes "s \<le> m" "m \<le> e"
    and "\<And>idx. in_range (shape t) idx \<Longrightarrow> s \<le> idx ! 1 \<Longrightarrow> idx ! 1 < m \<Longrightarrow>
       g1 (idx[1 := idx ! 1 - s]) = g (idx[1 := idx ! 1 - s])"
    and "\<And>idx. in_range (shape t) idx \<Longrightarrow> m \<le> idx ! 1 \<Longrightarrow> idx ! 1 < e \<Longrightarrow>
       g2 (idx[1 := idx ! 1 - m]) = g (idx[1 := idx ! 1 - s])"
  shows "add_slice (add_slice t s m g1) m e g2 = add_slice t s e g"
  using assms by (auto simp: add_slice_def fun_eq_iff)

lemma cell_update_commute:
  "cell_update results cfs thr c1 a (cell_update results cfs thr c2 a t) =
   cell_update results cfs thr c2 a (cell_update results cfs thr c1 a t)"
  by (simp add: cell_update_def add_slice_commute split: option.splits)

lemma owner_None: "owner results cfs a = None \<Longrightarrow> a \<notin> accumulators results cfs"
  by (auto simp: owner_def accumulators_def find_None_iff)

lemma owner_Some:
  assumes "owner results cfs a = Some cf"
  obtains ent where "cf \<in> set cfs" "results cf = Some ent" "a \<in> entry_addrs ent"
  using assms unfolding owner_def find_Some_iff
  by (auto split: option.splits)

lemma cells_call_spec:
  assumes wf: "wf_state geom cfs T N results h" and dist: "distinct cfs"
    and c: "exact_call geom cfs N c"
  shows "cells (call_spec results cfs (call_activations c) thr (call_batch_data c)
           (nat (call_f_start c)) (nat (call_f_end c)) h) a =
         cell_update results cfs thr c a (cells h a)"
proof (cases "owner results cfs a")
  case None
  then show ?thesis
    by (simp add: cell_update_def call_spec_other[OF owner_None[OF None]])
next
  case (Some cf)
  from owner_Some[OF Some] obtain ent where cf: "cf \<in> set cfs" and ent: "results cf = Some ent"
    and a: "a \<in> entry_addrs ent" by blast
  obtain R C K where g: "geom cf = (R, C, K)" by (cases "geom cf")
  from exact_call_boards[OF c cf g] obtain boards where bd: "call_batch_data c cf = Some boards"
    by blast
  have d: "distinct [on ent, off ent, on_count ent, off_count ent]"
    by (rule wf_entry_distinct[OF wf_state_entry[OF wf cf ent]])
  note cells = call_spec_cells[where bd="call_batch_data c" and cf=cf and results=results
      and acts="call_activations c" and thr=thr and s="nat (call_f_start c)"
      and e="nat (call_f_end c)", OF wf dist cf ent bd]
  have upd: "cell_update results cfs thr c a t =
      add_slice t (nat (call_f_start c)) (nat (call_f_end c))
        (entry_delta (call_activations c) thr boards ent a)" for t
    by (simp add: cell_update_def Some ent bd)
  from a consider "a = on ent" | "a = off ent" | "a = on_count ent" | "a = off_count ent"
    by (auto simp: entry_addrs_def)
  then show ?thesis unfolding upd
  proof cases
    case 1
    then show "cells (call_spec results cfs (call_activations c) thr (call_batch_data c)
           (nat (call_f_start c)) (nat (call_f_end c)) h) a =
         add_slice (cells h a) (nat (call_f_start c)) (nat (call_f_end c))
           (entry_delta (call_activations c) thr boards ent a)"
      by (simp add: cells(1) add_sums_def entry_delta_def[abs_def])
  next
    case 2
    then show "cells (call_spec results cfs (call_activations c) thr (call_batch_data c)
           (nat (call_f_start c)) (nat (call_f_end c)) h) a =
         add_slice (cells h a) (nat (call_f_start c)) (nat (call_f_end c))
           (entry_delta (call_activations c) thr boards ent a)"
      using d by (simp add: cells(2) add_sums_def entry_delta_def[abs_def])
  next
    case 3
    then show "cells (call_spec results cfs (call_activations c) thr (call_batch_data c)
           (nat (call_f_start c)) (nat (call_f_end c)) h) a =
         add_slice (cells h a) (nat (call_f_start c)) (nat (call_f_end c))
           (entry_delta (call_activations c) thr boards ent a)"
      using d by (simp add: cells(3) add_counts_def entry_delta_def[abs_def])
  next
    case 4
    then show "cells (call_spec results cfs (call_activations c) thr (call_batch_data c)
           (nat (call_f_start c)) (nat (call_f_end c)) h) a =
         add_slice (cells h a) (nat (call_f_start c)) (nat (call_f_end c))
           (entry_delta (call_activations c) thr boards ent a)"
      using d by (simp add: cells(4) add_counts_def entry_delta_def[abs_def])
  qed
qed

lemma cells_calls_spec:
  assumes wf: "wf_state geom cfs T N results h" and dist: "distinct cfs"
    and calls: "\<forall>c\<in>set calls. exact_call geom cfs N c"
  shows "cells (calls_spec results cfs thr calls h) a =
         fold (\<lambda>c. cell_update results cfs thr c a) calls (cells h a)"
  using wf calls
proof (induction calls arbitrary: h)
  case Nil
  then show ?case by simp
next
  case (Cons c calls)
  from Cons.prems(2) have c: "exact_call geom cfs N c" by simp
  have wf1: "wf_state geom cfs T N results
     (call_spec results cfs (call_activations c) thr (call_batch_data c)
        (nat (call_f_start c)) (nat (call_f_end c)) h)"
    using Cons.prems(1) by simp
  show ?case
    using Cons.IH[OF wf1] Cons.prems(2)
    by (simp add: calls_spec_Cons cells_call_spec[OF Cons.prems(1) dist c])
qed

lemma calls_spec_next [simp]: "next_free (calls_spec results cfs thr calls h) = next_free h"
  unfolding calls_spec_def by (induction calls arbitrary: h) simp_all

lemma calls_spec_eqI:
  assumes wf: "wf_state geom cfs T N results h" and dist: "distinct cfs"
    and calls: "\<forall>c\<in>set calls. exact_call geom cfs N c"
    and calls': "\<forall>c\<in>set calls'. exact_call geom cfs N c"
    and eq: "\<And>a t. fold (\<lambda>c. cell_update results cfs thr c a) calls t =
                   fold (\<lambda>c. cell_update results cfs thr c a) calls' t"
  shows "calls_spec results cfs thr calls h = calls_spec results cfs thr calls' h"
proof (rule heap.equality)
  show "cells (calls_spec results cfs thr calls h) = cells (calls_spec results cfs thr calls' h)"
    by (rule ext)
       (simp add: cells_calls_spec[OF wf dist calls] cells_calls_spec[OF wf dist calls'] eq)
qed simp_all

subsection \<open>Splitting a call along the batch axis or the feature axis\<close>

lemma sum_lessThan_split:
  fixes F :: "nat \<Rightarrow> real"
  assumes "k \<le> B"
  shows "(\<Sum>b<B. F b) = (\<Sum>b<k. F b) + (\<Sum>b<B - k. F (b + k))"
proof -
  have "(\<Sum>b<B. F b) = sum F {0..<k} + sum F {k..<B}"
    using assms by (simp add: lessThan_atLeast0 sum.atLeastLessThan_concat)
  also have "sum F {k..<B} = sum F {0 + k..<(B - k) + k}" using assms by simp
  also have "\<dots> = (\<Sum>b\<in>{0..<B - k}. F (b + k))" by (rule sum.shift_bounds_nat_ivl)
  finally show ?thesis by (simp add: lessThan_atLeast0)
qed

lemma exact_call_shape:
  assumes "exact_call geom cfs N c"
  obtains B L where
    "shape (call_activations c) = [nat (call_f_end c) - nat (call_f_start c), B, L]"
    "0 \<le> call_f_start c" "call_f_start c \<le> call_f_end c" "nat (call_f_end c) \<le> N"
    "call_f_batch_size c = nat (call_f_end c) - nat (call_f_start c)"
proof -
  from assms have nn: "0 \<le> call_f_start c" "0 \<le> call_f_end c"
    and fbs: "call_f_batch_size c = nat (call_f_end c - call_f_start c)"
    and call: "wf_call geom cfs N (call_activations c) (call_batch_data c)
       (nat (call_f_start c)) (nat (call_f_end c))"
    by (simp_all add: exact_call_def)
  from wf_call_acts[OF call] obtain B L where
    s: "shape (call_activations c) = [nat (call_f_end c) - nat (call_f_start c), B, L]"
    and r: "nat (call_f_start c) \<le> nat (call_f_end c)" "nat (call_f_end c) \<le> N" by blast
  from r(1) nn have le: "call_f_start c \<le> call_f_end c" by simp
  from fbs nn le have "call_f_batch_size c = nat (call_f_end c) - nat (call_f_start c)"
    by (simp add: nat_diff_distrib)
  with s nn le r show ?thesis using that by blast
qed

lemma batch_split_exact:
  assumes c: "exact_call geom cfs N c" and k: "k \<le> shape (call_activations c) ! 1"
  shows "exact_call geom cfs N (batch_lo k c)" "exact_call geom cfs N (batch_hi k c)"
proof -
  from exact_call_shape[OF c] obtain B L where
    s: "shape (call_activations c) = [nat (call_f_end c) - nat (call_f_start c), B, L]" by blast
  from c have base: "0 \<le> call_f_start c" "0 \<le> call_f_end c"
      "call_f_batch_size c = nat (call_f_end c - call_f_start c)"
      "nat (call_f_start c) \<le> nat (call_f_end c)" "nat (call_f_end c) \<le> N"
    by (simp_all add: exact_call_def wf_call_def s)
  have boards: "\<exists>boards. call_batch_data c cf = Some boards \<and> shape boards = [B, L, R, C, K]"
    if "cf \<in> set cfs" "geom cf = (R, C, K)" for cf R C K
    using exact_call_boards[OF c that] s by auto
  have lo: "\<exists>boards. call_batch_data (batch_lo k c) cf = Some boards \<and>
        (case geom cf of (R, C, K) \<Rightarrow>
           shape boards = [shape (call_activations (batch_lo k c)) ! 1,
                           shape (call_activations (batch_lo k c)) ! 2, R, C, K])"
    if "cf \<in> set cfs" for cf
  proof -
    obtain R C K where g: "geom cf = (R, C, K)" by (cases "geom cf")
    from boards[OF that g] obtain boards where "call_batch_data c cf = Some boards"
      "shape boards = [B, L, R, C, K]" by blast
    then show ?thesis by (simp add: batch_lo_def take_axis_def s g)
  qed
  have hi: "\<exists>boards. call_batch_data (batch_hi k c) cf = Some boards \<and>
        (case geom cf of (R, C, K) \<Rightarrow>
           shape boards = [shape (call_activations (batch_hi k c)) ! 1,
                           shape (call_activations (batch_hi k c)) ! 2, R, C, K])"
    if "cf \<in> set cfs" for cf
  proof -
    obtain R C K where g: "geom cf = (R, C, K)" by (cases "geom cf")
    from boards[OF that g] obtain boards where "call_batch_data c cf = Some boards"
      "shape boards = [B, L, R, C, K]" by blast
    then show ?thesis by (simp add: batch_hi_def drop_axis_def s g)
  qed
  show "exact_call geom cfs N (batch_lo k c)"
    unfolding exact_call_def wf_call_def
    using base lo by (simp add: batch_lo_def take_axis_def s)
  show "exact_call geom cfs N (batch_hi k c)"
    unfolding exact_call_def wf_call_def
    using base hi by (simp add: batch_hi_def drop_axis_def s)
qed

lemma active_take_axis [simp]: "active (take_axis ax k acts) thr t f b l = active acts thr t f b l"
  by (simp add: active_def take_axis_def)

lemma active_drop_axis1 [simp]:
  "active (drop_axis (Suc 0) k acts) thr t f b l = active acts thr t f (b + k) l"
  by (simp add: active_def drop_axis_def)

lemma active_drop_axis0 [simp]:
  "active (drop_axis 0 k acts) thr t f b l = active acts thr t (f + k) b l"
  by (simp add: active_def drop_axis_def)

lemma entry_delta_batch_split:
  assumes s: "shape acts = [F, B, L]" and k: "k \<le> B"
  shows "(\<lambda>idx. entry_delta (take_axis (Suc 0) k acts) thr (take_axis 0 k boards) ent a idx +
               entry_delta (drop_axis (Suc 0) k acts) thr (drop_axis 0 k boards) ent a idx) =
         entry_delta acts thr boards ent a"
proof (rule ext)
  fix idx
  have sh: "shape (take_axis (Suc 0) k acts) ! 1 = k" "shape (take_axis (Suc 0) k acts) ! 2 = L"
    "shape (drop_axis (Suc 0) k acts) ! 1 = B - k" "shape (drop_axis (Suc 0) k acts) ! 2 = L"
    "shape acts ! 1 = B" "shape acts ! 2 = L"
    by (simp_all add: take_axis_def drop_axis_def s)
  have el: "elems (take_axis 0 k boards) i = elems boards i"
    "elems (drop_axis 0 k boards) [b, l, r, c, x] = elems boards [b + k, l, r, c, x]" for i b l r c x
    by (simp_all add: take_axis_def drop_axis_def)
  have 1: "sum_on (take_axis (Suc 0) k acts) thr (take_axis 0 k boards) t f r c x +
           sum_on (drop_axis (Suc 0) k acts) thr (drop_axis 0 k boards) t f r c x =
           sum_on acts thr boards t f r c x" for t f r c x
    unfolding sum_on_def sh
    by (simp add: el sum_lessThan_split[OF k, where F = "\<lambda>b. \<Sum>l<L.
          elems boards [b, l, r, c, x] * (if active acts thr t f b l then 1 else 0)"])
  have 2: "sum_off (take_axis (Suc 0) k acts) thr (take_axis 0 k boards) t f r c x +
           sum_off (drop_axis (Suc 0) k acts) thr (drop_axis 0 k boards) t f r c x =
           sum_off acts thr boards t f r c x" for t f r c x
    unfolding sum_off_def sh
    by (simp add: el sum_lessThan_split[OF k, where F = "\<lambda>b. \<Sum>l<L.
          elems boards [b, l, r, c, x] * (if active acts thr t f b l then 0 else 1)"])
  have 3: "count_on (take_axis (Suc 0) k acts) thr t f + count_on (drop_axis (Suc 0) k acts) thr t f =
           count_on acts thr t f" for t f
    unfolding count_on_def sh
    by (simp add: sum_lessThan_split[OF k, where F = "\<lambda>b. \<Sum>l<L.
          (if active acts thr t f b l then 1 else 0)"])
  have 4: "count_off (take_axis (Suc 0) k acts) thr t f + count_off (drop_axis (Suc 0) k acts) thr t f =
           count_off acts thr t f" for t f
    unfolding count_off_def sh
    by (simp add: sum_lessThan_split[OF k, where F = "\<lambda>b. \<Sum>l<L.
          (if active acts thr t f b l then 0 else 1)"])
  show "entry_delta (take_axis (Suc 0) k acts) thr (take_axis 0 k boards) ent a idx +
        entry_delta (drop_axis (Suc 0) k acts) thr (drop_axis 0 k boards) ent a idx =
        entry_delta acts thr boards ent a idx"
    by (simp add: entry_delta_def 1 2 3 4)
qed

lemma cell_update_batch_split:
  assumes c: "exact_call geom cfs N c" and k: "k \<le> shape (call_activations c) ! 1"
  shows "cell_update results cfs thr (batch_hi k c) a (cell_update results cfs thr (batch_lo k c) a t) =
         cell_update results cfs thr c a t"
proof -
  from exact_call_shape[OF c] obtain B L where
    s: "shape (call_activations c) = [nat (call_f_end c) - nat (call_f_start c), B, L]" by blast
  from k s have k': "k \<le> B" by simp
  show ?thesis
    by (simp add: cell_update_def batch_lo_def batch_hi_def add_slice_twice
          entry_delta_batch_split[OF s k'] split: option.splits)
qed

lemma feature_split_exact:
  assumes c: "exact_call geom cfs N c"
    and m: "nat (call_f_start c) \<le> m" "m \<le> nat (call_f_end c)"
  shows "exact_call geom cfs N (feature_lo m c)" "exact_call geom cfs N (feature_hi m c)"
proof -
  from exact_call_shape[OF c] obtain B L where
    s: "shape (call_activations c) = [nat (call_f_end c) - nat (call_f_start c), B, L]"
    and base: "0 \<le> call_f_start c" "call_f_start c \<le> call_f_end c" "nat (call_f_end c) \<le> N"
    by blast
  from c have boards: "\<forall>cf\<in>set cfs. \<exists>boards. call_batch_data c cf = Some boards \<and>
        (case geom cf of (R, C, K) \<Rightarrow> shape boards = [B, L, R, C, K])"
    by (simp add: exact_call_def wf_call_def s)
  show "exact_call geom cfs N (feature_lo m c)"
    unfolding exact_call_def wf_call_def
    using base m boards by (simp add: feature_lo_def take_axis_def s nat_diff_distrib)
  show "exact_call geom cfs N (feature_hi m c)"
    unfolding exact_call_def wf_call_def
    using base m boards by (simp add: feature_hi_def drop_axis_def s nat_diff_distrib)
qed

lemma entry_delta_take_axis0:
  assumes "length (shape acts) = 3"
  shows "entry_delta (take_axis 0 d acts) thr boards ent a = entry_delta acts thr boards ent a"
proof (rule ext)
  fix idx
  have sh: "shape (take_axis 0 d acts) ! Suc 0 = shape acts ! Suc 0"
    "shape (take_axis 0 d acts) ! 2 = shape acts ! 2"
    using assms by (simp_all add: take_axis_def)
  show "entry_delta (take_axis 0 d acts) thr boards ent a idx = entry_delta acts thr boards ent a idx"
    by (simp add: entry_delta_def sum_on_def sum_off_def count_on_def count_off_def sh)
qed

lemma entry_delta_drop_axis0:
  assumes "length (shape acts) = 3" and len: "2 \<le> length idx" and f: "idx ! Suc 0 = f" "idx' ! Suc 0 = f + d"
    and same: "idx' ! 0 = idx ! 0" "idx' ! 2 = idx ! 2" "idx' ! 3 = idx ! 3" "idx' ! 4 = idx ! 4"
  shows "entry_delta (drop_axis 0 d acts) thr boards ent a idx = entry_delta acts thr boards ent a idx'"
proof -
  have sh: "shape (drop_axis 0 d acts) ! Suc 0 = shape acts ! Suc 0"
    "shape (drop_axis 0 d acts) ! 2 = shape acts ! 2"
    using assms(1) by (simp_all add: drop_axis_def)
  show ?thesis
    by (simp add: entry_delta_def sum_on_def sum_off_def count_on_def count_off_def sh f same)
qed

lemma cell_update_feature_split:
  assumes c: "exact_call geom cfs N c"
    and m: "nat (call_f_start c) \<le> m" "m \<le> nat (call_f_end c)"
    and rank: "2 \<le> length (shape t)"
  shows "cell_update results cfs thr (feature_hi m c) a
           (cell_update results cfs thr (feature_lo m c) a t) =
         cell_update results cfs thr c a t"
proof -
  from exact_call_shape[OF c] obtain B L where
    s: "shape (call_activations c) = [nat (call_f_end c) - nat (call_f_start c), B, L]" by blast
  then have l3: "length (shape (call_activations c)) = 3" by simp
  let ?s = "nat (call_f_start c)" and ?e = "nat (call_f_end c)"
  have split: "add_slice
        (add_slice t ?s m (entry_delta (take_axis 0 (m - ?s) (call_activations c)) thr boards ent a))
        m ?e (entry_delta (drop_axis 0 (m - ?s) (call_activations c)) thr boards ent a) =
      add_slice t ?s ?e (entry_delta (call_activations c) thr boards ent a)" for boards ent
  proof (rule add_slice_split[OF m])
    fix idx
    show "entry_delta (take_axis 0 (m - ?s) (call_activations c)) thr boards ent a
            (idx[1 := idx ! 1 - ?s]) =
          entry_delta (call_activations c) thr boards ent a (idx[1 := idx ! 1 - ?s])"
      by (simp add: entry_delta_take_axis0[OF l3])
  next
    fix idx
    assume r: "in_range (shape t) idx" and lo: "m \<le> idx ! 1" and hi: "idx ! 1 < ?e"
    from r have len: "length idx = length (shape t)"
      by (simp add: in_range_def list_all2_lengthD)
    with rank have len2: "2 \<le> length idx" by simp
    show "entry_delta (drop_axis 0 (m - ?s) (call_activations c)) thr boards ent a
            (idx[1 := idx ! 1 - m]) =
          entry_delta (call_activations c) thr boards ent a (idx[1 := idx ! 1 - ?s])"
      by (rule entry_delta_drop_axis0[OF l3, where f = "idx ! 1 - m"])
         (use len2 lo m in \<open>simp_all\<close>)
  qed
  show ?thesis
    by (simp add: cell_update_def feature_lo_def feature_hi_def split split: option.splits)
qed

lemma fold_cell_update_unowned:
  assumes "owner results cfs a = None"
  shows "fold (\<lambda>c. cell_update results cfs thr c a) calls t = t"
  by (induction calls arbitrary: t) (simp_all add: cell_update_def assms)

lemma wf_state_rank:
  assumes wf: "wf_state geom cfs T N results h" and o: "owner results cfs a = Some cf"
  shows "2 \<le> length (shape (cells h a))"
proof -
  from owner_Some[OF o] obtain ent where cf: "cf \<in> set cfs" and ent: "results cf = Some ent"
    and a: "a \<in> entry_addrs ent" by blast
  obtain R C K where g: "geom cf = (R, C, K)" by (cases "geom cf")
  note e = wf_entryD[OF wf_state_entry[OF wf cf ent] g]
  from a show ?thesis by (auto simp: entry_addrs_def e)
qed

lemma calls_spec_eq_ranked:
  assumes wf: "wf_state geom cfs T N results h" and dist: "distinct cfs"
    and calls: "\<forall>c\<in>set calls. exact_call geom cfs N c"
    and calls': "\<forall>c\<in>set calls'. exact_call geom cfs N c"
    and eq: "\<And>a t. 2 \<le> length (shape t) \<Longrightarrow>
                 fold (\<lambda>c. cell_update results cfs thr c a) calls t =
                 fold (\<lambda>c. cell_update results cfs thr c a) calls' t"
  shows "calls_spec results cfs thr calls h = calls_spec results cfs thr calls' h"
proof (rule heap.equality)
  show "cells (calls_spec results cfs thr calls h) = cells (calls_spec results cfs thr calls' h)"
  proof (rule ext)
    fix a
    show "cells (calls_spec results cfs thr calls h) a = cells (calls_spec results cfs thr calls' h) a"
    proof (cases "owner results cfs a")
      case None
      then show ?thesis
        by (simp add: cells_calls_spec[OF wf dist calls] cells_calls_spec[OF wf dist calls']
              fold_cell_update_unowned)
    next
      case (Some cf)
      from eq[OF wf_state_rank[OF wf Some]] show ?thesis
        by (simp add: cells_calls_spec[OF wf dist calls] cells_calls_spec[OF wf dist calls'])
    qed
  qed
qed simp_all

lemma accumulate_calls_cong:
  assumes wf: "wf_state geom cfs T N results h" and dist: "distinct cfs"
    and thr: "shape thr = [T, 1, 1, 1]"
    and calls: "\<forall>c\<in>set calls. exact_call geom cfs N c"
    and calls': "\<forall>c\<in>set calls'. exact_call geom cfs N c"
    and eq: "\<And>a t. 2 \<le> length (shape t) \<Longrightarrow>
                 fold (\<lambda>c. cell_update results cfs thr c a) calls t =
                 fold (\<lambda>c. cell_update results cfs thr c a) calls' t"
  shows "accumulate_calls results cfs thr calls h = accumulate_calls results cfs thr calls' h"
  by (simp add: accumulate_calls_exact[OF wf calls thr] accumulate_calls_exact[OF wf calls' thr]
        calls_spec_eq_ranked[OF wf dist calls calls' eq])

lemma fold_cell_update_permute:
  assumes "mset calls' = mset calls"
  shows "fold (\<lambda>c. cell_update results cfs thr c a) calls' t =
         fold (\<lambda>c. cell_update results cfs thr c a) calls t"
proof -
  have "fold (\<lambda>c. cell_update results cfs thr c a) calls' =
        fold (\<lambda>c. cell_update results cfs thr c a) calls"
    by (rule fold_multiset_equiv[OF _ assms]) (simp add: fun_eq_iff cell_update_commute)
  then show ?thesis by simp
qed

subsection \<open>float32 on the integers up to \<open>2 ^ 24\<close>\<close>

lemma round_half_even_of_int [simp]: "round_half_even (of_int m) = m"
  by (simp add: round_half_even_def)

lemma float32_0 [simp]: "float32 0 = 0"
  by (simp add: float32_def)

lemma float32_grid:
  assumes "x \<noteq> 0" "\<lfloor>log 2 \<bar>x\<bar>\<rfloor> = e" "- 126 \<le> e" "x = of_int m * 2 powi (e - 23)"
  shows "float32 x = x"
proof -
  have pos: "(2::real) powi (e - 23) \<noteq> 0" by simp
  have "x / 2 powi (e - 23) = of_int m" using assms(4) pos by simp
  then show ?thesis using assms by (simp add: float32_def Let_def max_def)
qed

lemma float32_of_int:
  assumes "\<bar>k\<bar> \<le> 2 ^ 24"
  shows "float32 (of_int k) = of_int k"
proof (cases "k = 0")
  case True
  then show ?thesis by simp
next
  case False
  define e where "e = \<lfloor>log 2 \<bar>real_of_int k\<bar>\<rfloor>"
  have k1: "1 \<le> \<bar>real_of_int k\<bar>" using False by (simp flip: of_int_abs)
  have k2: "\<bar>real_of_int k\<bar> \<le> 2 ^ 24" using assms by (simp flip: of_int_abs)
  have e0: "0 \<le> e" unfolding e_def using k1 by simp
  have "log 2 \<bar>real_of_int k\<bar> \<le> 24" using k1 k2 by (simp add: log_le_iff)
  then have e24: "e \<le> 24" unfolding e_def by (simp add: floor_le_iff)
  have lo: "2 powr (of_int e) \<le> \<bar>real_of_int k\<bar>"
    using floor_log_eq_powr_iff[of "\<bar>real_of_int k\<bar>" 2 e] k1 e_def by simp
  show ?thesis
  proof (cases "e \<le> 23")
    case True
    define m where "m = k * 2 ^ nat (23 - e)"
    have "(2::real) powi (e - 23) = inverse (2 ^ nat (23 - e))"
      using True by (simp add: power_int_def power_one_over inverse_eq_divide)
    then have eq: "real_of_int k = of_int m * 2 powi (e - 23)"
      by (simp add: m_def)
    show ?thesis
    proof (rule float32_grid[where e = e and m = m])
      show "real_of_int k \<noteq> 0" using \<open>k \<noteq> 0\<close> by simp
      show "\<lfloor>log 2 \<bar>real_of_int k\<bar>\<rfloor> = e" by (simp add: e_def)
      show "- 126 \<le> e" using e0 by simp
      show "real_of_int k = of_int m * 2 powi (e - 23)" by (rule eq)
    qed
  next
    case False
    with e24 have e: "e = 24" by simp
    from lo e have "2 ^ 24 \<le> \<bar>real_of_int k\<bar>" by simp
    with k2 have "\<bar>real_of_int k\<bar> = 2 ^ 24" by simp
    then have "\<bar>k\<bar> = 2 ^ 24" by (simp flip: of_int_abs)
    then have "k = 2 ^ 24 \<or> k = - (2 ^ 24)" by linarith
    then have eq: "real_of_int k = of_int (k div 2) * 2 powi (e - 23)"
      using e by auto
    show ?thesis
    proof (rule float32_grid[where e = e and m = "k div 2"])
      show "real_of_int k \<noteq> 0" using \<open>k \<noteq> 0\<close> by simp
      show "\<lfloor>log 2 \<bar>real_of_int k\<bar>\<rfloor> = e" by (simp add: e_def)
      show "- 126 \<le> e" using e by simp
      show "real_of_int k = of_int (k div 2) * 2 powi (e - 23)" by (rule eq)
    qed
  qed
qed

lemma float32_of_nat: "n \<le> 2 ^ 24 \<Longrightarrow> float32 (real n) = real n"
  using float32_of_int[of "int n"] by simp

lemma float32_16777217: "float32 16777217 = 16777216"
proof -
  have "\<lfloor>log 2 \<bar>16777217::real\<bar>\<rfloor> = 24"
    by (subst floor_log_eq_powr_iff) simp_all
  moreover have "round_half_even (16777217 / 2) = 8388608"
  proof -
    have "\<lfloor>16777217 / 2 :: real\<rfloor> = 8388608" by linarith
    then show ?thesis by (simp add: round_half_even_def Let_def)
  qed
  ultimately show ?thesis by (simp add: float32_def Let_def)
qed

subsection \<open>The program with float32 accumulators, in closed form\<close>

lemma iadd_counts_exact_f32:
  assumes acc: "shape acc = [T, N]" and rng: "s \<le> e" "e \<le> N"
    and rhs: "shape rhs = [T, e - s]"
    and val: "\<And>t f. t < T \<Longrightarrow> f < e - s \<Longrightarrow> elems rhs [t, f] = g t f"
  shows "iadd_slice_f32 2 acc (int s) (int e) rhs = Inr (add_counts_f32 acc s e g)"
proof -
  have bc: "broadcastable_to (shape rhs) ([T, N][1 := min e N - min s N])"
    using rng by (simp add: rhs broadcastable_to_def min_def)
  have min: "min s N = s" "min e N = e" using rng by simp_all
  have v: "bread rhs [t, f - s] = g t (f - s)" if "t < T" "s \<le> f" "f < e" for t f
  proof -
    have "f - s < e - s" using that by arith
    then show ?thesis using that val by (simp add: bread_def rhs)
  qed
  show ?thesis
    unfolding iadd_slice_f32_def Let_def acc
    using bc
    apply (simp add: min add_counts_f32_def add_slice_f32_def acc)
    apply (rule ext)
    apply (auto simp: in_range2 v)
    done
qed

lemma iadd_sums_exact_f32:
  assumes acc: "shape acc = [T, N, R, C, K]" and rng: "s \<le> e" "e \<le> N"
    and rhs: "shape rhs = [T, e - s, R, C, K]"
    and val: "\<And>t f r c k. t < T \<Longrightarrow> f < e - s \<Longrightarrow> r < R \<Longrightarrow> c < C \<Longrightarrow> k < K \<Longrightarrow>
       elems rhs [t, f, r, c, k] = g t f r c k"
  shows "iadd_slice_f32 5 acc (int s) (int e) rhs = Inr (add_sums_f32 acc s e g)"
proof -
  have bc: "broadcastable_to (shape rhs) ([T, N, R, C, K][1 := min e N - min s N])"
    using rng by (simp add: rhs broadcastable_to_def min_def)
  have min: "min s N = s" "min e N = e" using rng by simp_all
  have v: "bread rhs [t, f - s, r, c, k] = g t (f - s) r c k"
    if "t < T" "s \<le> f" "f < e" "r < R" "c < C" "k < K" for t f r c k
  proof -
    have "f - s < e - s" using that by arith
    then show ?thesis using that val by (simp add: bread_def rhs)
  qed
  show ?thesis
    unfolding iadd_slice_f32_def Let_def acc
    using bc
    apply (simp add: min add_sums_f32_def add_slice_f32_def acc)
    apply (rule ext)
    apply (auto simp: in_range5 v)
    done
qed

lemma accumulate_function_exact_f32:
  assumes acts: "shape acts = [e - s, B, L]" and thr: "shape thr = [T, 1, 1, 1]"
    and bd: "bd cf = Some boards" and boards: "shape boards = [B, L, R, C, K]"
    and ent: "results cf = Some ent"
    and dist: "distinct [on ent, off ent, on_count ent, off_count ent]"
    and shp: "shape (cells h (on ent)) = [T, N, R, C, K]" "shape (cells h (off ent)) = [T, N, R, C, K]"
      "shape (cells h (on_count ent)) = [T, N]" "shape (cells h (off_count ent)) = [T, N]"
    and rng: "s \<le> e" "e \<le> N"
    and ai: "tensor_gt acts thr = Inr ai" and ac: "reduce_TFBL_TF ai = Inr ac"
    and oc: "reduce_TFBL_TF (tensor_not ai) = Inr oc"
  shows "accumulate_function_f32 ai ac oc thr bd (int s) (int e) (e - s) cf (results, h) =
         Inr (results, accumulate_spec_f32 acts thr boards s e ent h)"
proof -
  from counts_chain[OF acts thr] ai ac oc have
    ai_eq: "ai = \<lparr>shape = [T, e - s, B, L], elems = \<lambda>idx. bread thr idx < bread acts idx\<rparr>" and
    sac: "shape ac = [T, e - s]" and soc: "shape oc = [T, e - s]" and
    vac: "\<And>t f. t < T \<Longrightarrow> f < e - s \<Longrightarrow> elems ac [t, f] = count_on acts thr t f" and
    voc: "\<And>t f. t < T \<Longrightarrow> f < e - s \<Longrightarrow> elems oc [t, f] = count_off acts thr t f"
    by auto
  from sums_chain[OF acts thr boards ai_eq] obtain b7 a7 p1 r1 p2 r2 where
    c1: "repeat_BLRRC_TFBLRRC boards (e - s) T = Inr b7" and c2: "index_none3 ai = Inr a7" and
    c3: "tensor_mul_mask b7 a7 = Inr p1" and c4: "reduce_TFBLRRC_TFRRC p1 = Inr r1" and
    c5: "tensor_mul_mask b7 (tensor_not a7) = Inr p2" and c6: "reduce_TFBLRRC_TFRRC p2 = Inr r2" and
    sr1: "shape r1 = [T, e - s, R, C, K]" and sr2: "shape r2 = [T, e - s, R, C, K]" and
    vr1: "\<And>t f r c k. t < T \<Longrightarrow> f < e - s \<Longrightarrow> r < R \<Longrightarrow> c < C \<Longrightarrow> k < K \<Longrightarrow>
         elems r1 [t, f, r, c, k] = sum_on acts thr boards t f r c k" and
    vr2: "\<And>t f r c k. t < T \<Longrightarrow> f < e - s \<Longrightarrow> r < R \<Longrightarrow> c < C \<Longrightarrow> k < K \<Longrightarrow>
         elems r2 [t, f, r, c, k] = sum_off acts thr boards t f r c k"
    by blast
  have len: "len_tensor thr = Inr T" by (simp add: len_tensor_def thr)
  have s1: "iadd_slice_f32 5 (cells h (on ent)) (int s) (int e) r1 =
      Inr (add_sums_f32 (cells h (on ent)) s e (sum_on acts thr boards))"
    by (rule iadd_sums_exact_f32[OF shp(1) rng sr1 vr1])
  have s2: "iadd_slice_f32 5 (cells h (off ent)) (int s) (int e) r2 =
      Inr (add_sums_f32 (cells h (off ent)) s e (sum_off acts thr boards))"
    by (rule iadd_sums_exact_f32[OF shp(2) rng sr2 vr2])
  have s3: "iadd_slice_f32 2 (cells h (on_count ent)) (int s) (int e) ac =
      Inr (add_counts_f32 (cells h (on_count ent)) s e (count_on acts thr))"
    by (rule iadd_counts_exact_f32[OF shp(3) rng sac vac])
  have s4: "iadd_slice_f32 2 (cells h (off_count ent)) (int s) (int e) oc =
      Inr (add_counts_f32 (cells h (off_count ent)) s e (count_off acts thr))"
    by (rule iadd_counts_exact_f32[OF shp(4) rng soc voc])
  have upd: "results(cf \<mapsto> ent) = results" using ent by (rule fun_upd_idem)
  show ?thesis
    unfolding accumulate_function_f32_def
    using dist
    by (simp add: ent bd len c1 c2 c3 c4 c5 c6 Let_def store_def s1 s2 s3 s4 upd accumulate_spec_f32_def)
qed

lemma shape_add_slice_f32 [simp]: "shape (add_slice_f32 acc s e g) = shape acc"
  by (simp add: add_slice_f32_def)

lemma shape_add_sums_f32 [simp]: "shape (add_sums_f32 acc s e g) = shape acc"
  by (simp add: add_sums_f32_def)

lemma shape_add_counts_f32 [simp]: "shape (add_counts_f32 acc s e g) = shape acc"
  by (simp add: add_counts_f32_def)

lemma accumulate_spec_shape_f32 [simp]:
  "shape (cells (accumulate_spec_f32 acts thr boards s e ent h) a) = shape (cells h a)"
  by (simp add: accumulate_spec_f32_def)

lemma accumulate_spec_next_f32 [simp]:
  "next_free (accumulate_spec_f32 acts thr boards s e ent h) = next_free h"
  by (simp add: accumulate_spec_f32_def)

lemma accumulate_spec_other_f32:
  "a \<notin> entry_addrs ent \<Longrightarrow> cells (accumulate_spec_f32 acts thr boards s e ent h) a = cells h a"
  by (simp add: accumulate_spec_f32_def entry_addrs_def)

lemma function_spec_shape_f32 [simp]:
  "shape (cells (function_spec_f32 results acts thr bd s e cf h) a) = shape (cells h a)"
  by (simp add: function_spec_f32_def split: option.splits)

lemma function_spec_next_f32 [simp]:
  "next_free (function_spec_f32 results acts thr bd s e cf h) = next_free h"
  by (simp add: function_spec_f32_def split: option.splits)

lemma wf_state_function_spec_f32 [simp]:
  "wf_state geom cfs T N results (function_spec_f32 results' acts thr bd s e cf h) =
   wf_state geom cfs T N results h"
  by (rule wf_state_shape_cong) simp

lemma call_spec_shape_f32 [simp]:
  "shape (cells (call_spec_f32 results cfs acts thr bd s e h) a) = shape (cells h a)"
  unfolding call_spec_f32_def by (induction cfs arbitrary: h) simp_all

lemma call_spec_next_f32 [simp]:
  "next_free (call_spec_f32 results cfs acts thr bd s e h) = next_free h"
  unfolding call_spec_f32_def by (induction cfs arbitrary: h) simp_all

lemma wf_state_call_spec_f32 [simp]:
  "wf_state geom cfs T N results (call_spec_f32 results' cfs' acts thr bd s e h) =
   wf_state geom cfs T N results h"
  by (rule wf_state_shape_cong) simp

lemma for_each_accumulate_exact_f32:
  assumes wf: "wf_state geom cfs T N results h" and call: "wf_call geom cfs N acts bd s e"
    and thr: "shape thr = [T, 1, 1, 1]" and sub: "set xs \<subseteq> set cfs"
    and ai: "tensor_gt acts thr = Inr ai" and ac: "reduce_TFBL_TF ai = Inr ac"
    and oc: "reduce_TFBL_TF (tensor_not ai) = Inr oc"
  shows "for_each (accumulate_function_f32 ai ac oc thr bd (int s) (int e) (e - s)) xs (results, h) =
         Inr (results, fold (function_spec_f32 results acts thr bd s e) xs h)"
  using wf sub
proof (induction xs arbitrary: h)
  case Nil
  then show ?case by simp
next
  case (Cons cf xs)
  from Cons.prems have cf: "cf \<in> set cfs" by simp
  from call obtain B L where acts: "shape acts = [e - s, B, L]" and rng: "s \<le> e" "e \<le> N"
    by (rule wf_call_acts)
  obtain R C K where g: "geom cf = (R, C, K)" by (cases "geom cf")
  from call cf acts g obtain boards where bd: "bd cf = Some boards"
    and boards: "shape boards = [B, L, R, C, K]"
    by (auto simp: wf_call_def)
  from Cons.prems(1) cf g obtain ent where ent: "results cf = Some ent"
    and dist: "distinct [on ent, off ent, on_count ent, off_count ent]"
    and shp: "shape (cells h (on ent)) = [T, N, R, C, K]" "shape (cells h (off ent)) = [T, N, R, C, K]"
      "shape (cells h (on_count ent)) = [T, N]" "shape (cells h (off_count ent)) = [T, N]"
    by (auto simp: wf_state_def wf_entry_def)
  have step: "accumulate_function_f32 ai ac oc thr bd (int s) (int e) (e - s) cf (results, h) =
      Inr (results, function_spec_f32 results acts thr bd s e cf h)"
    using accumulate_function_exact_f32[where bd=bd and cf=cf and results=results, OF acts thr bd boards ent dist shp rng ai ac oc]
    by (simp add: function_spec_f32_def ent bd)
  have wf': "wf_state geom cfs T N results (function_spec_f32 results acts thr bd s e cf h)"
    using Cons.prems(1) by simp
  show ?case
    using Cons.IH[OF wf'] Cons.prems(2) by (simp add: step)
qed

lemma aggregate_batch_statistics_exact_f32:
  assumes wf: "wf_state geom cfs T N results h" and call: "wf_call geom cfs N acts bd s e"
    and thr: "shape thr = [T, 1, 1, 1]"
  shows "aggregate_batch_statistics_f32 results cfs acts thr bd (int s) (int e) (e - s) h =
         Inr (results, call_spec_f32 results cfs acts thr bd s e h)"
proof -
  from call obtain B L where acts: "shape acts = [e - s, B, L]"
    by (rule wf_call_acts)
  from counts_chain[OF acts thr] obtain ai ac oc where
    ai: "tensor_gt acts thr = Inr ai" and ac: "reduce_TFBL_TF ai = Inr ac"
    and oc: "reduce_TFBL_TF (tensor_not ai) = Inr oc" by blast
  show ?thesis
    unfolding aggregate_batch_statistics_f32_def call_spec_f32_def
    using for_each_accumulate_exact_f32[OF wf call thr subset_refl ai ac oc]
    by (simp add: ai ac oc)
qed

lemma function_spec_other_f32:
  "a \<notin> accumulators results [cf] \<Longrightarrow> cells (function_spec_f32 results acts thr bd s e cf h) a = cells h a"
  by (auto simp: function_spec_f32_def accumulators_def accumulate_spec_other_f32 split: option.splits)

lemma call_spec_other_f32:
  "a \<notin> accumulators results cfs \<Longrightarrow> cells (call_spec_f32 results cfs acts thr bd s e h) a = cells h a"
  unfolding call_spec_f32_def
proof (induction cfs arbitrary: h)
  case Nil
  then show ?case by simp
next
  case (Cons cf cfs)
  then show ?case
    by (simp add: accumulators_Cons[of results cf cfs] function_spec_other_f32)
qed

lemma accumulate_spec_cong_f32:
  assumes "cells h1 (on ent) = cells h (on ent)" "cells h1 (off ent) = cells h (off ent)"
    "cells h1 (on_count ent) = cells h (on_count ent)"
    "cells h1 (off_count ent) = cells h (off_count ent)"
    and "a \<in> entry_addrs ent"
  shows "cells (accumulate_spec_f32 acts thr boards s e ent h1) a =
         cells (accumulate_spec_f32 acts thr boards s e ent h) a"
  using assms by (auto simp: accumulate_spec_f32_def entry_addrs_def)

lemma fold_function_spec_entry_f32:
  assumes wf: "wf_state geom cfs T N results h" and dist: "distinct xs" and sub: "set xs \<subseteq> set cfs"
    and cf: "cf \<in> set xs" and ent: "results cf = Some ent" and bd: "bd cf = Some boards"
    and a: "a \<in> entry_addrs ent"
  shows "cells (fold (function_spec_f32 results acts thr bd s e) xs h) a =
         cells (accumulate_spec_f32 acts thr boards s e ent h) a"
  using wf dist sub cf
proof (induction xs arbitrary: h)
  case Nil
  then show ?case by simp
next
  case (Cons x xs)
  let ?h1 = "function_spec_f32 results acts thr bd s e x h"
  have wf1: "wf_state geom cfs T N results ?h1" using Cons.prems(1) by simp
  show ?case
  proof (cases "x = cf")
    case True
    then have h1: "?h1 = accumulate_spec_f32 acts thr boards s e ent h"
      by (simp add: function_spec_f32_def ent bd)
    from True have "cf \<notin> set xs" using Cons.prems(2) by simp
    then have "a \<notin> accumulators results xs"
      using wf_state_disjoint[OF Cons.prems(1) _ ent _ _ a] Cons.prems(3,4) by simp
    then have "cells (fold (function_spec_f32 results acts thr bd s e) xs ?h1) a = cells ?h1 a"
      using call_spec_other_f32[unfolded call_spec_f32_def] by blast
    then show ?thesis unfolding fold_simps h1 by simp
  next
    case False
    then have cfxs: "cf \<in> set xs" using Cons.prems(4) by simp
    have cfin: "cf \<in> set cfs" using Cons.prems(3) cfxs by auto
    have same: "cells ?h1 b = cells h b" if "b \<in> entry_addrs ent" for b
    proof -
      have "b \<notin> accumulators results [x]"
        using wf_state_disjoint[OF Cons.prems(1) cfin ent, of "[x]" b] Cons.prems(3) False that
        by simp
      then show ?thesis by (rule function_spec_other_f32)
    qed
    have "cells (fold (function_spec_f32 results acts thr bd s e) xs ?h1) a =
          cells (accumulate_spec_f32 acts thr boards s e ent ?h1) a"
      using Cons.IH[OF wf1] Cons.prems(2,3) cfxs by simp
    also have "\<dots> = cells (accumulate_spec_f32 acts thr boards s e ent h) a"
      by (rule accumulate_spec_cong_f32[OF _ _ _ _ a]) (simp_all add: same entry_addrs_def)
    finally show ?thesis by simp
  qed
qed

lemma call_spec_cells_f32:
  assumes wf: "wf_state geom cfs T N results h" and dist: "distinct cfs"
    and cf: "cf \<in> set cfs" and ent: "results cf = Some ent" and bd: "bd cf = Some boards"
  shows "cells (call_spec_f32 results cfs acts thr bd s e h) (on ent) =
           add_sums_f32 (cells h (on ent)) s e (sum_on acts thr boards)"
    and "cells (call_spec_f32 results cfs acts thr bd s e h) (off ent) =
           add_sums_f32 (cells h (off ent)) s e (sum_off acts thr boards)"
    and "cells (call_spec_f32 results cfs acts thr bd s e h) (on_count ent) =
           add_counts_f32 (cells h (on_count ent)) s e (count_on acts thr)"
    and "cells (call_spec_f32 results cfs acts thr bd s e h) (off_count ent) =
           add_counts_f32 (cells h (off_count ent)) s e (count_off acts thr)"
proof -
  have d: "distinct [on ent, off ent, on_count ent, off_count ent]"
    by (rule wf_entry_distinct[OF wf_state_entry[OF wf cf ent]])
  have eq: "cells (call_spec_f32 results cfs acts thr bd s e h) a =
            cells (accumulate_spec_f32 acts thr boards s e ent h) a" if "a \<in> entry_addrs ent" for a
    unfolding call_spec_f32_def
    by (rule fold_function_spec_entry_f32[where bd=bd and cf=cf and results=results, OF wf dist subset_refl cf ent bd that])
  show "cells (call_spec_f32 results cfs acts thr bd s e h) (on ent) =
           add_sums_f32 (cells h (on ent)) s e (sum_on acts thr boards)"
    using d by (simp add: eq entry_addrs_def accumulate_spec_f32_def)
  show "cells (call_spec_f32 results cfs acts thr bd s e h) (off ent) =
           add_sums_f32 (cells h (off ent)) s e (sum_off acts thr boards)"
    using d by (simp add: eq entry_addrs_def accumulate_spec_f32_def)
  show "cells (call_spec_f32 results cfs acts thr bd s e h) (on_count ent) =
           add_counts_f32 (cells h (on_count ent)) s e (count_on acts thr)"
    using d by (simp add: eq entry_addrs_def accumulate_spec_f32_def)
  show "cells (call_spec_f32 results cfs acts thr bd s e h) (off_count ent) =
           add_counts_f32 (cells h (off_count ent)) s e (count_off acts thr)"
    using d by (simp add: eq entry_addrs_def accumulate_spec_f32_def)
qed

lemma exact_call_run_f32:
  assumes wf: "wf_state geom cfs T N results h" and c: "exact_call geom cfs N c"
    and thr: "shape thr = [T, 1, 1, 1]"
  shows "aggregate_batch_statistics_f32 results cfs (call_activations c) thr (call_batch_data c)
           (call_f_start c) (call_f_end c) (call_f_batch_size c) h =
         Inr (results, call_spec_f32 results cfs (call_activations c) thr (call_batch_data c)
                (nat (call_f_start c)) (nat (call_f_end c)) h)"
proof -
  from c have nn: "0 \<le> call_f_start c" "0 \<le> call_f_end c"
    and fbs: "call_f_batch_size c = nat (call_f_end c - call_f_start c)"
    and call: "wf_call geom cfs N (call_activations c) (call_batch_data c)
       (nat (call_f_start c)) (nat (call_f_end c))"
    by (simp_all add: exact_call_def)
  from call have "nat (call_f_start c) \<le> nat (call_f_end c)" by (simp add: wf_call_def)
  with nn fbs have fbs': "call_f_batch_size c = nat (call_f_end c) - nat (call_f_start c)"
    by (simp add: nat_diff_distrib)
  show ?thesis
    using aggregate_batch_statistics_exact_f32[OF wf call thr] nn by (simp add: fbs')
qed

lemma accumulate_calls_exact_f32:
  assumes wf: "wf_state geom cfs T N results h" and calls: "\<forall>c\<in>set calls. exact_call geom cfs N c"
    and thr: "shape thr = [T, 1, 1, 1]"
  shows "accumulate_calls_f32 results cfs thr calls h = Inr (results, calls_spec_f32 results cfs thr calls h)"
  using wf calls unfolding accumulate_calls_f32_def calls_spec_f32_def
proof (induction calls arbitrary: h)
  case Nil
  then show ?case by simp
next
  case (Cons c calls)
  from Cons.prems(2) have c: "exact_call geom cfs N c" by simp
  note step = exact_call_run_f32[OF Cons.prems(1) c thr]
  have wf': "wf_state geom cfs T N results
     (call_spec_f32 results cfs (call_activations c) thr (call_batch_data c)
        (nat (call_f_start c)) (nat (call_f_end c)) h)"
    using Cons.prems(1) by simp
  show ?case using Cons.IH[OF wf'] Cons.prems(2) by (simp add: step)
qed

lemma wf_state_calls_spec_f32 [simp]:
  "wf_state geom cfs T N results (calls_spec_f32 results' cfs' thr calls h) =
   wf_state geom cfs T N results h"
  unfolding calls_spec_f32_def by (induction calls arbitrary: h) simp_all

lemma calls_spec_Cons_f32:
  "calls_spec_f32 results cfs thr (c # calls) h =
   calls_spec_f32 results cfs thr calls
     (call_spec_f32 results cfs (call_activations c) thr (call_batch_data c)
        (nat (call_f_start c)) (nat (call_f_end c)) h)"
  by (simp add: calls_spec_f32_def)

lemma calls_spec_Nil_f32 [simp]: "calls_spec_f32 results cfs thr [] h = h"
  by (simp add: calls_spec_f32_def)

subsection \<open>Values after a call with float32 accumulators\<close>

lemma elems_add_counts_f32:
  assumes "shape acc = [T, N]" "t < T" "f < N"
  shows "elems (add_counts_f32 acc s e g) [t, f] =
         (if s \<le> f \<and> f < e then float32 (elems acc [t, f] + float32 (g t (f - s)))
          else elems acc [t, f])"
  using assms by (simp add: add_counts_f32_def add_slice_f32_def)

lemma elems_add_sums_f32:
  assumes "shape acc = [T, N, R, C, K]" "t < T" "f < N" "r < R" "c < C" "k < K"
  shows "elems (add_sums_f32 acc s e g) [t, f, r, c, k] =
         (if s \<le> f \<and> f < e then float32 (elems acc [t, f, r, c, k] + float32 (g t (f - s) r c k))
          else elems acc [t, f, r, c, k])"
  using assms by (simp add: add_sums_f32_def add_slice_f32_def)

lemma call_values_f32:
  fixes thr :: "real tensor"
  assumes wf: "wf_state geom cfs T N results h" and dist: "distinct cfs"
    and cf: "cf \<in> set cfs" and ent: "results cf = Some ent"
    and c: "exact_call geom cfs N c" and g: "geom cf = (R, C, K)"
    and bd: "call_batch_data c cf = Some boards"
    and t: "t < T" and f: "f < N"
  defines "h' \<equiv> call_spec_f32 results cfs (call_activations c) thr (call_batch_data c)
                   (nat (call_f_start c)) (nat (call_f_end c)) h"
  shows "elems (cells h' (on_count ent)) [t, f] =
           (if covers c f
            then float32 (elems (cells h (on_count ent)) [t, f] +
                   float32 (count_on (call_activations c) thr t (f - nat (call_f_start c))))
            else elems (cells h (on_count ent)) [t, f])"
    and "elems (cells h' (off_count ent)) [t, f] =
           (if covers c f
            then float32 (elems (cells h (off_count ent)) [t, f] +
                   float32 (count_off (call_activations c) thr t (f - nat (call_f_start c))))
            else elems (cells h (off_count ent)) [t, f])"
    and "r < R \<Longrightarrow> x < C \<Longrightarrow> k < K \<Longrightarrow>
         elems (cells h' (on ent)) [t, f, r, x, k] =
           (if covers c f
            then float32 (elems (cells h (on ent)) [t, f, r, x, k] +
                   float32 (sum_on (call_activations c) thr boards t (f - nat (call_f_start c)) r x k))
            else elems (cells h (on ent)) [t, f, r, x, k])"
    and "r < R \<Longrightarrow> x < C \<Longrightarrow> k < K \<Longrightarrow>
         elems (cells h' (off ent)) [t, f, r, x, k] =
           (if covers c f
            then float32 (elems (cells h (off ent)) [t, f, r, x, k] +
                   float32 (sum_off (call_activations c) thr boards t (f - nat (call_f_start c)) r x k))
            else elems (cells h (off ent)) [t, f, r, x, k])"
proof -
  note e = wf_entryD[OF wf_state_entry[OF wf cf ent] g]
  note cells = call_spec_cells_f32[where bd="call_batch_data c" and cf=cf and results=results
      and acts="call_activations c" and thr=thr and s="nat (call_f_start c)"
      and e="nat (call_f_end c)", OF wf dist cf ent bd, folded h'_def]
  note cov = exact_call_covers[OF c]
  show "elems (cells h' (on_count ent)) [t, f] =
           (if covers c f
            then float32 (elems (cells h (on_count ent)) [t, f] +
                   float32 (count_on (call_activations c) thr t (f - nat (call_f_start c))))
            else elems (cells h (on_count ent)) [t, f])"
    by (simp add: cells(3) elems_add_counts_f32[OF e(4) t f] cov)
  show "elems (cells h' (off_count ent)) [t, f] =
           (if covers c f
            then float32 (elems (cells h (off_count ent)) [t, f] +
                   float32 (count_off (call_activations c) thr t (f - nat (call_f_start c))))
            else elems (cells h (off_count ent)) [t, f])"
    by (simp add: cells(4) elems_add_counts_f32[OF e(5) t f] cov)
  show "elems (cells h' (on ent)) [t, f, r, x, k] =
           (if covers c f
            then float32 (elems (cells h (on ent)) [t, f, r, x, k] +
                   float32 (sum_on (call_activations c) thr boards t (f - nat (call_f_start c)) r x k))
            else elems (cells h (on ent)) [t, f, r, x, k])"
    if "r < R" "x < C" "k < K"
    by (simp add: cells(1) elems_add_sums_f32[OF e(2) t f that] cov)
  show "elems (cells h' (off ent)) [t, f, r, x, k] =
           (if covers c f
            then float32 (elems (cells h (off ent)) [t, f, r, x, k] +
                   float32 (sum_off (call_activations c) thr boards t (f - nat (call_f_start c)) r x k))
            else elems (cells h (off ent)) [t, f, r, x, k])"
    if "r < R" "x < C" "k < K"
    by (simp add: cells(2) elems_add_sums_f32[OF e(3) t f that] cov)
qed

subsection \<open>What a call adds is a number of positions\<close>

lemma count_on_nat:
  "\<exists>n. count_on acts thr t f = real n \<and> n \<le> shape acts ! 1 * shape acts ! 2"
proof -
  define n where "n = (\<Sum>b<shape acts ! 1. \<Sum>l<shape acts ! 2.
      if active acts thr t f b l then 1 else 0 :: nat)"
  have "count_on acts thr t f = real n"
    unfolding count_on_def n_def of_nat_sum by (intro sum.cong refl) simp
  moreover have "n \<le> (\<Sum>b<shape acts ! 1. \<Sum>l<shape acts ! 2. 1)"
    unfolding n_def by (intro sum_mono) simp
  ultimately show ?thesis by auto
qed

lemma count_off_nat:
  "\<exists>n. count_off acts thr t f = real n \<and> n \<le> shape acts ! 1 * shape acts ! 2"
proof -
  define n where "n = (\<Sum>b<shape acts ! 1. \<Sum>l<shape acts ! 2.
      if active acts thr t f b l then 0 else 1 :: nat)"
  have "count_off acts thr t f = real n"
    unfolding count_off_def n_def of_nat_sum by (intro sum.cong refl) simp
  moreover have "n \<le> (\<Sum>b<shape acts ! 1. \<Sum>l<shape acts ! 2. 1)"
    unfolding n_def by (intro sum_mono) simp
  ultimately show ?thesis by auto
qed

lemma sum_on_nat:
  assumes "\<And>b l. b < shape acts ! 1 \<Longrightarrow> l < shape acts ! 2 \<Longrightarrow>
     elems boards [b, l, r, c, k] = 0 \<or> elems boards [b, l, r, c, k] = 1"
  shows "\<exists>n. sum_on acts thr boards t f r c k = real n \<and> n \<le> shape acts ! 1 * shape acts ! 2"
proof -
  define n where "n = (\<Sum>b<shape acts ! 1. \<Sum>l<shape acts ! 2.
      if elems boards [b, l, r, c, k] = 1 \<and> active acts thr t f b l then 1 else 0 :: nat)"
  have "sum_on acts thr boards t f r c k = real n"
    unfolding sum_on_def n_def of_nat_sum
    by (intro sum.cong refl) (use assms in force)
  moreover have "n \<le> (\<Sum>b<shape acts ! 1. \<Sum>l<shape acts ! 2. 1)"
    unfolding n_def by (intro sum_mono) simp
  ultimately show ?thesis by auto
qed

lemma one_hot_at_most: "one_hot boards \<Longrightarrow> at_most_one_hot boards"
  by (simp add: one_hot_def at_most_one_hot_def)

lemma at_most_one_hot_binary:
  assumes "at_most_one_hot boards" "shape boards = [B, L, R, C, K]"
    "b < B" "l < L" "r < R" "c < C" "k < K"
  shows "elems boards [b, l, r, c, k] = 0 \<or> elems boards [b, l, r, c, k] = 1"
proof -
  from assms have "one_hot_at boards b l r c \<or> zero_at boards b l r c"
    by (simp add: at_most_one_hot_def)
  then show ?thesis
  proof
    assume "one_hot_at boards b l r c"
    then obtain k0 where "elems boards [b, l, r, c, k0] = 1"
      "\<And>k'. k' < K \<Longrightarrow> k' \<noteq> k0 \<Longrightarrow> elems boards [b, l, r, c, k'] = 0"
      using assms(2) by (auto simp: one_hot_at_def)
    then show ?thesis using assms(7) by (cases "k = k0") auto
  next
    assume "zero_at boards b l r c"
    then show ?thesis using assms(2,7) by (simp add: zero_at_def)
  qed
qed

subsection \<open>Below \<open>2 ^ 24\<close> positions the float32 accumulators are exact\<close>

lemma float32_add_nat:
  assumes "m + n \<le> 2 ^ 24"
  shows "float32 (real m + float32 (real n)) = real m + real n"
proof -
  from assms have "n \<le> 2 ^ 24" by simp
  then have "float32 (real n) = real n" by (rule float32_of_nat)
  moreover have "float32 (real (m + n)) = real (m + n)" using assms by (rule float32_of_nat)
  ultimately show ?thesis by simp
qed

lemma positions_covering_Nil [simp]: "positions_covering [] f = 0"
  by (simp add: positions_covering_def)

lemma positions_covering_Cons [simp]:
  "positions_covering (c # calls) f =
     (if covers c f then positions c else 0) + positions_covering calls f"
  by (simp add: positions_covering_def)

lemma real_positions_covering:
  "real (positions_covering calls f) = (\<Sum>c\<leftarrow>calls. if covers c f then real (positions c) else 0)"
  by (induction calls) simp_all

lemma calls_on_count_f32:
  assumes wff: "wf_state geom cfs T N results hf" and wfx: "wf_state geom cfs T N results hx"
    and dist: "distinct cfs" and calls: "\<forall>c\<in>set calls. exact_call geom cfs N c"
    and cf: "cf \<in> set cfs" and ent: "results cf = Some ent" and t: "t < T" and f: "f < N"
    and start: "elems (cells hf (on_count ent)) [t, f] = real m"
      "elems (cells hx (on_count ent)) [t, f] = real m"
    and bound: "m + positions_covering calls f \<le> 2 ^ 24"
  shows "elems (cells (calls_spec_f32 results cfs thr calls hf) (on_count ent)) [t, f] =
         elems (cells (calls_spec results cfs thr calls hx) (on_count ent)) [t, f]"
  using wff wfx calls start bound
proof (induction calls arbitrary: hf hx m)
  case Nil
  then show ?case by simp
next
  case (Cons c calls)
  let ?f1 = "call_spec_f32 results cfs (call_activations c) thr (call_batch_data c)
        (nat (call_f_start c)) (nat (call_f_end c)) hf"
  let ?x1 = "call_spec results cfs (call_activations c) thr (call_batch_data c)
        (nat (call_f_start c)) (nat (call_f_end c)) hx"
  from Cons.prems(3) have c: "exact_call geom cfs N c"
    and rest: "\<forall>c\<in>set calls. exact_call geom cfs N c" by simp_all
  obtain R C K where g: "geom cf = (R, C, K)" by (cases "geom cf")
  from exact_call_boards[OF c cf g] obtain boards where bd: "call_batch_data c cf = Some boards"
    by blast
  note vf = call_values_f32(1)[OF Cons.prems(1) dist cf ent c g bd t f, of thr]
  note vx = call_values(1)[OF Cons.prems(2) dist cf ent c g bd t f, of thr]
  have wf1: "wf_state geom cfs T N results ?f1" "wf_state geom cfs T N results ?x1"
    using Cons.prems(1,2) by simp_all
  from count_on_nat[of "call_activations c" thr t "f - nat (call_f_start c)"] obtain n where
    n: "count_on (call_activations c) thr t (f - nat (call_f_start c)) = real n"
      "n \<le> positions c" by (auto simp: positions_def)
  define m' where "m' = (if covers c f then m + n else m)"
  have b': "m' + positions_covering calls f \<le> 2 ^ 24"
    using Cons.prems(6) n(2) by (auto simp: m'_def)
  have s1: "elems (cells ?f1 (on_count ent)) [t, f] = real m'"
  proof (cases "covers c f")
    case True
    then have "m + n \<le> 2 ^ 24" using Cons.prems(6) n(2) by simp
    from float32_add_nat[OF this] show ?thesis
      using True by (simp add: vf Cons.prems(4) n(1) m'_def)
  next
    case False
    then show ?thesis by (simp add: vf Cons.prems(4) m'_def)
  qed
  have s2: "elems (cells ?x1 (on_count ent)) [t, f] = real m'"
    by (simp add: vx Cons.prems(5) n(1) m'_def)
  show ?case
    using Cons.IH[OF wf1 rest s1 s2 b'] by (simp add: calls_spec_Cons calls_spec_Cons_f32)
qed

lemma calls_off_count_f32:
  assumes wff: "wf_state geom cfs T N results hf" and wfx: "wf_state geom cfs T N results hx"
    and dist: "distinct cfs" and calls: "\<forall>c\<in>set calls. exact_call geom cfs N c"
    and cf: "cf \<in> set cfs" and ent: "results cf = Some ent" and t: "t < T" and f: "f < N"
    and start: "elems (cells hf (off_count ent)) [t, f] = real m"
      "elems (cells hx (off_count ent)) [t, f] = real m"
    and bound: "m + positions_covering calls f \<le> 2 ^ 24"
  shows "elems (cells (calls_spec_f32 results cfs thr calls hf) (off_count ent)) [t, f] =
         elems (cells (calls_spec results cfs thr calls hx) (off_count ent)) [t, f]"
  using wff wfx calls start bound
proof (induction calls arbitrary: hf hx m)
  case Nil
  then show ?case by simp
next
  case (Cons c calls)
  let ?f1 = "call_spec_f32 results cfs (call_activations c) thr (call_batch_data c)
        (nat (call_f_start c)) (nat (call_f_end c)) hf"
  let ?x1 = "call_spec results cfs (call_activations c) thr (call_batch_data c)
        (nat (call_f_start c)) (nat (call_f_end c)) hx"
  from Cons.prems(3) have c: "exact_call geom cfs N c"
    and rest: "\<forall>c\<in>set calls. exact_call geom cfs N c" by simp_all
  obtain R C K where g: "geom cf = (R, C, K)" by (cases "geom cf")
  from exact_call_boards[OF c cf g] obtain boards where bd: "call_batch_data c cf = Some boards"
    by blast
  note vf = call_values_f32(2)[OF Cons.prems(1) dist cf ent c g bd t f, of thr]
  note vx = call_values(2)[OF Cons.prems(2) dist cf ent c g bd t f, of thr]
  have wf1: "wf_state geom cfs T N results ?f1" "wf_state geom cfs T N results ?x1"
    using Cons.prems(1,2) by simp_all
  from count_off_nat[of "call_activations c" thr t "f - nat (call_f_start c)"] obtain n where
    n: "count_off (call_activations c) thr t (f - nat (call_f_start c)) = real n"
      "n \<le> positions c" by (auto simp: positions_def)
  define m' where "m' = (if covers c f then m + n else m)"
  have b': "m' + positions_covering calls f \<le> 2 ^ 24"
    using Cons.prems(6) n(2) by (auto simp: m'_def)
  have s1: "elems (cells ?f1 (off_count ent)) [t, f] = real m'"
  proof (cases "covers c f")
    case True
    then have "m + n \<le> 2 ^ 24" using Cons.prems(6) n(2) by simp
    from float32_add_nat[OF this] show ?thesis
      using True by (simp add: vf Cons.prems(4) n(1) m'_def)
  next
    case False
    then show ?thesis by (simp add: vf Cons.prems(4) m'_def)
  qed
  have s2: "elems (cells ?x1 (off_count ent)) [t, f] = real m'"
    by (simp add: vx Cons.prems(5) n(1) m'_def)
  show ?case
    using Cons.IH[OF wf1 rest s1 s2 b'] by (simp add: calls_spec_Cons calls_spec_Cons_f32)
qed

lemma calls_on_f32:
  assumes wff: "wf_state geom cfs T N results hf" and wfx: "wf_state geom cfs T N results hx"
    and dist: "distinct cfs" and calls: "\<forall>c\<in>set calls. exact_call geom cfs N c"
    and cf: "cf \<in> set cfs" and ent: "results cf = Some ent" and g: "geom cf = (R, C, K)"
    and t: "t < T" and f: "f < N" and r: "r < R" and x: "x < C" and k: "k < K"
    and hot: "\<forall>c\<in>set calls. \<forall>boards. call_batch_data c cf = Some boards \<longrightarrow> at_most_one_hot boards"
    and start: "elems (cells hf (on ent)) [t, f, r, x, k] = real m"
      "elems (cells hx (on ent)) [t, f, r, x, k] = real m"
    and bound: "m + positions_covering calls f \<le> 2 ^ 24"
  shows "elems (cells (calls_spec_f32 results cfs thr calls hf) (on ent)) [t, f, r, x, k] =
         elems (cells (calls_spec results cfs thr calls hx) (on ent)) [t, f, r, x, k]"
  using wff wfx calls hot start bound
proof (induction calls arbitrary: hf hx m)
  case Nil
  then show ?case by simp
next
  case (Cons c calls)
  let ?f1 = "call_spec_f32 results cfs (call_activations c) thr (call_batch_data c)
        (nat (call_f_start c)) (nat (call_f_end c)) hf"
  let ?x1 = "call_spec results cfs (call_activations c) thr (call_batch_data c)
        (nat (call_f_start c)) (nat (call_f_end c)) hx"
  from Cons.prems(3) have c: "exact_call geom cfs N c"
    and rest: "\<forall>c\<in>set calls. exact_call geom cfs N c" by simp_all
  from exact_call_boards[OF c cf g] obtain boards where bd: "call_batch_data c cf = Some boards"
    and sb: "shape boards = [shape (call_activations c) ! 1, shape (call_activations c) ! 2, R, C, K]"
    by blast
  from Cons.prems(4) bd have oh: "at_most_one_hot boards"
    and hot': "\<forall>c\<in>set calls. \<forall>boards. call_batch_data c cf = Some boards \<longrightarrow> at_most_one_hot boards"
    by simp_all
  note vf = call_values_f32(3)[OF Cons.prems(1) dist cf ent c g bd t f r x k, of thr]
  note vx = call_values(3)[OF Cons.prems(2) dist cf ent c g bd t f r x k, of thr]
  have wf1: "wf_state geom cfs T N results ?f1" "wf_state geom cfs T N results ?x1"
    using Cons.prems(1,2) by simp_all
  have "\<exists>n. sum_on (call_activations c) thr boards t (f - nat (call_f_start c)) r x k = real n \<and>
      n \<le> shape (call_activations c) ! 1 * shape (call_activations c) ! 2"
    by (rule sum_on_nat) (rule at_most_one_hot_binary[OF oh sb _ _ r x k])
  then obtain n where
    n: "sum_on (call_activations c) thr boards t (f - nat (call_f_start c)) r x k = real n"
      "n \<le> positions c" by (auto simp: positions_def)
  define m' where "m' = (if covers c f then m + n else m)"
  have b': "m' + positions_covering calls f \<le> 2 ^ 24"
    using Cons.prems(7) n(2) by (auto simp: m'_def)
  have s1: "elems (cells ?f1 (on ent)) [t, f, r, x, k] = real m'"
  proof (cases "covers c f")
    case True
    then have "m + n \<le> 2 ^ 24" using Cons.prems(7) n(2) by simp
    from float32_add_nat[OF this] show ?thesis
      using True by (simp add: vf Cons.prems(5) n(1) m'_def)
  next
    case False
    then show ?thesis by (simp add: vf Cons.prems(5) m'_def)
  qed
  have s2: "elems (cells ?x1 (on ent)) [t, f, r, x, k] = real m'"
    by (simp add: vx Cons.prems(6) n(1) m'_def)
  show ?case
    using Cons.IH[OF wf1 rest hot' s1 s2 b'] by (simp add: calls_spec_Cons calls_spec_Cons_f32)
qed

subsection \<open>The entries after initialisation\<close>

lemma initialize_results_dict_config:
  assumes "initialize_results_dict ev cfs (int T) (int N) h0 = Inr (results, h)" "cf \<in> set cfs"
  shows "\<exists>ent config. results cf = Some ent \<and> config_lookup ev cf = Some config \<and>
           geometry ev cf = (num_rows ev config, num_cols ev config, get_num_classes ev config) \<and>
           zero_entry T N (geometry ev cf) h ent \<and>
           distinct [on ent, off ent, on_count ent, off_count ent]"
proof -
  from for_each_initialize[OF assms(1)[unfolded initialize_results_dict_def] init_inv_empty]
  have inv: "init_inv ev T N results h" and all: "\<forall>cf\<in>set cfs. results cf \<noteq> None" by simp_all
  from all assms(2) obtain ent where ent: "results cf = Some ent" by auto
  with inv have "cf \<in> dom (config_lookup ev)" "zero_entry T N (geometry ev cf) h ent"
    "distinct [on ent, off ent, on_count ent, off_count ent]"
    unfolding init_inv_def by blast+
  then show ?thesis using ent by (auto simp: geometry_def)
qed

section \<open>The claims\<close>

text \<open>
  Claim C9 (frame condition). A call of \<^verbatim>\<open>aggregate_batch_statistics\<close> that returns leaves
  the results dictionary and every tensor that is not an accumulator of one of its attribute
  functions as they were, keeps the shape of every tensor, and changes an accumulator only
  inside the slice \<^verbatim>\<open>[:, f_start:f_end, ...]\<close>. The slice is taken as Python takes it (a
  negative bound counts from the end of the axis); for bounds that are not negative this
  says that every entry whose feature index lies outside \<open>[f_start, f_end)\<close> is unchanged.
  Nothing is assumed about the call but that it returns: the tensors may alias and the
  shapes may broadcast.
\<close>

theorem aggregate_batch_statistics_frame:
  assumes "aggregate_batch_statistics results cfs acts thr bd f_start f_end fbs h = Inr (results', h')"
  shows "results' = results \<and> next_free h' = next_free h \<and>
         (\<forall>a. shape (cells h' a) = shape (cells h a)) \<and>
         (\<forall>a. a \<notin> accumulators results cfs \<longrightarrow> cells h' a = cells h a) \<and>
         (\<forall>a idx. \<not> (slice_index (shape (cells h a) ! 1) f_start \<le> idx ! 1 \<and>
                       idx ! 1 < slice_index (shape (cells h a) ! 1) f_end) \<longrightarrow>
                   elems (cells h' a) idx = elems (cells h a) idx) \<and>
         (0 \<le> f_start \<and> 0 \<le> f_end \<longrightarrow>
            (\<forall>a idx. \<not> (f_start \<le> int (idx ! 1) \<and> int (idx ! 1) < f_end) \<longrightarrow>
                      elems (cells h' a) idx = elems (cells h a) idx))"
proof -
  from aggregate_batch_statistics_heap_frame[OF assms] have
    r: "results' = results" and f: "heap_frame f_start f_end (accumulators results cfs) h h'"
    by simp_all
  from f have so: "same_outside f_start f_end (cells h a) (cells h' a)" for a
    by (simp add: heap_frame_def)
  have "elems (cells h' a) idx = elems (cells h a) idx"
    if "0 \<le> f_start" "0 \<le> f_end" "\<not> (f_start \<le> int (idx ! 1) \<and> int (idx ! 1) < f_end)" for a idx
    using same_outside_interval[OF so that] .
  moreover have "elems (cells h' a) idx = elems (cells h a) idx"
    if "\<not> (slice_index (shape (cells h a) ! 1) f_start \<le> idx ! 1 \<and>
            idx ! 1 < slice_index (shape (cells h a) ! 1) f_end)" for a idx
    using so[of a] that by (simp add: same_outside_def)
  moreover have "shape (cells h' a) = shape (cells h a)" for a
    using so[of a] by (simp add: same_outside_def)
  ultimately show ?thesis using r f by (simp add: heap_frame_def)
qed

theorem aggregate_batch_statistics_frame_witness:
  "\<exists>results h h'.
     initialize_results_dict ex_env [''pin''] 2 2 ex_heap = Inr (results, h) \<and>
     aggregate_batch_statistics results [''pin''] (ex_acts\<lparr>shape := [1, 1, 2]\<rparr>) ex_thr
       [''pin'' \<mapsto> ex_boards] 0 1 1 h = Inr (results, h') \<and>
     elems (cells h' (on_count (the (results ''pin'')))) [0, 1] =
     elems (cells h (on_count (the (results ''pin'')))) [0, 1]"
proof -
  from ex_init obtain results h where
    init: "initialize_results_dict ex_env [''pin''] 2 2 ex_heap = Inr (results, h)" by blast
  have wf: "wf_state (geometry ex_env) [''pin''] 2 2 results h"
    using initialize_results_dict_wf[of ex_env "[''pin'']" 2 2 ex_heap results h] init by simp
  have call: "wf_call (geometry ex_env) [''pin''] 2 (ex_acts\<lparr>shape := [1, 1, 2]\<rparr>) [''pin'' \<mapsto> ex_boards] 0 1"
    by (simp add: wf_call_def ex_geometry ex_acts_def ex_boards_def)
  from aggregate_batch_statistics_exact[OF wf call ex_thr_shape] obtain h' where
    run: "aggregate_batch_statistics results [''pin''] (ex_acts\<lparr>shape := [1, 1, 2]\<rparr>) ex_thr
       [''pin'' \<mapsto> ex_boards] 0 1 1 h = Inr (results, h')"
    by simp
  from aggregate_batch_statistics_frame[OF run] have
    "elems (cells h' a) idx = elems (cells h a) idx"
    if "\<not> ((0::int) \<le> int (idx ! 1) \<and> int (idx ! 1) < 1)" for a idx
    using that by simp
  from this[of "[0, 1]"] have "elems (cells h' (on_count (the (results ''pin'')))) [0, 1] =
     elems (cells h (on_count (the (results ''pin'')))) [0, 1]" by simp
  with init run show ?thesis by blast
qed

subsection \<open>A run past \<open>2 ^ 24\<close> positions\<close>

text \<open>
  From the initial accumulators for two thresholds and one feature, with float32
  accumulators: the call with \<open>2 ^ 24\<close> positions of class 0, then the call with one position of
  class 1. The counter of active positions stays at \<open>2 ^ 24\<close>, because \<open>2 ^ 24 + 1\<close> is not a
  float32 number, while the two class entries of \<open>on\<close> are \<open>2 ^ 24\<close> and 1.
\<close>

lemma big_exact_call: "exact_call (geometry ex_env) [''pin''] 1 big_call"
  by (simp add: exact_call_def wf_call_def big_call_def ex_geometry)

lemma one_exact_call: "exact_call (geometry ex_env) [''pin''] 1 one_call"
  by (simp add: exact_call_def wf_call_def one_call_def ex_geometry)

lemma ex_init1:
  "\<exists>results h. initialize_results_dict ex_env [''pin''] 2 1 ex_heap = Inr (results, h)"
proof -
  have "\<exists>st'. for_each (initialize_function ex_env (int 2) (int 1)) [''pin''] (Map.empty, ex_heap) = Inr st'"
    by (rule for_each_initialize_total[where ev = ex_env and d = "''cpu''"])
       (simp_all add: ex_env_def)
  then show ?thesis unfolding initialize_results_dict_def by auto
qed

lemma big_run_values:
  "\<exists>results h h' ent.
     initialize_results_dict ex_env [''pin''] 2 1 ex_heap = Inr (results, h) \<and>
     accumulate_calls_f32 results [''pin''] ex_thr [big_call, one_call] h = Inr (results, h') \<and>
     results ''pin'' = Some ent \<and>
     elems (cells h' (on_count ent)) [0, 0] = 16777216 \<and>
     elems (cells h' (off_count ent)) [0, 0] = 0 \<and>
     elems (cells h' (on ent)) [0, 0, 0, 0, 0] = 16777216 \<and>
     elems (cells h' (on ent)) [0, 0, 0, 0, 1] = 1"
proof -
  from ex_init1 obtain results h where
    init: "initialize_results_dict ex_env [''pin''] (int 2) (int 1) ex_heap = Inr (results, h)" by auto
  from initialize_results_dict_wf[OF init] have
    wf: "wf_state (geometry ex_env) [''pin''] 2 1 results h" by simp
  from initialize_results_dict_config[OF init, of "''pin''"] obtain ent where
    ent: "results ''pin'' = Some ent" and z: "zero_entry 2 1 (geometry ex_env ''pin'') h ent"
    by auto
  have calls: "\<forall>c\<in>set [big_call, one_call]. exact_call (geometry ex_env) [''pin''] 1 c"
    using big_exact_call one_exact_call by simp
  let ?h1 = "call_spec_f32 results [''pin''] (call_activations big_call) ex_thr
      (call_batch_data big_call) (nat (call_f_start big_call)) (nat (call_f_end big_call)) h"
  let ?h2 = "call_spec_f32 results [''pin''] (call_activations one_call) ex_thr
      (call_batch_data one_call) (nat (call_f_start one_call)) (nat (call_f_end one_call)) ?h1"
  have run: "accumulate_calls_f32 results [''pin''] ex_thr [big_call, one_call] h = Inr (results, ?h2)"
    using accumulate_calls_exact_f32[OF wf calls ex_thr_shape]
    by (simp add: calls_spec_f32_def)
  have wf1: "wf_state (geometry ex_env) [''pin''] 2 1 results ?h1" using wf by simp
  define B1 :: "real tensor" where
    "B1 = \<lparr>shape = [16777216, 1, 1, 1, 2], elems = \<lambda>idx. if idx ! 4 = 0 then 1 else 0\<rparr>"
  define B2 :: "real tensor" where
    "B2 = \<lparr>shape = [1, 1, 1, 1, 2], elems = \<lambda>idx. if idx ! 4 = 1 then 1 else 0\<rparr>"
  have bd1: "call_batch_data big_call ''pin'' = Some B1" by (simp add: big_call_def B1_def)
  have bd2: "call_batch_data one_call ''pin'' = Some B2" by (simp add: one_call_def B2_def)
  have cov: "covers big_call 0" "covers one_call 0"
    by (simp_all add: covers_def big_call_def one_call_def)
  have f24: "float32 16777216 = 16777216" using float32_of_nat[of 16777216] by simp
  have f1: "float32 1 = 1" using float32_of_nat[of 1] by simp
  note v1 = call_values_f32[where t = 0 and f = 0 and thr = ex_thr and cf = "''pin''" and cfs = "[''pin'']",
      OF wf _ _ ent big_exact_call ex_geometry bd1]
  note v2 = call_values_f32[where t = 0 and f = 0 and thr = ex_thr and cf = "''pin''" and cfs = "[''pin'']",
      OF wf1 _ _ ent one_exact_call ex_geometry bd2]
  have c1: "count_on (call_activations big_call) ex_thr 0 0 = 16777216"
    "count_off (call_activations big_call) ex_thr 0 0 = 0"
    "sum_on (call_activations big_call) ex_thr B1 0 0 0 0 0 = 16777216"
    "sum_on (call_activations big_call) ex_thr B1 0 0 0 0 (Suc 0) = 0"
    by (simp_all add: count_on_def count_off_def sum_on_def active_def big_call_def ex_thr_def B1_def)
  have c2: "count_on (call_activations one_call) ex_thr 0 0 = 1"
    "count_off (call_activations one_call) ex_thr 0 0 = 0"
    "sum_on (call_activations one_call) ex_thr B2 0 0 0 0 0 = 0"
    "sum_on (call_activations one_call) ex_thr B2 0 0 0 0 (Suc 0) = 1"
    by (simp_all add: count_on_def count_off_def sum_on_def active_def one_call_def ex_thr_def B2_def)
  have s1: "elems (cells ?h1 (on_count ent)) [0, 0] = 16777216"
    "elems (cells ?h1 (off_count ent)) [0, 0] = 0"
    "elems (cells ?h1 (on ent)) [0, 0, 0, 0, 0] = 16777216"
    "elems (cells ?h1 (on ent)) [0, 0, 0, 0, Suc 0] = 0"
    using v1(1) v1(2) v1(3)[of 0 0 0] v1(3)[of 0 0 "Suc 0"]
    by (simp_all add: cov c1 zero_entryD[OF z] f24)
  have s2: "elems (cells ?h2 (on_count ent)) [0, 0] = 16777216"
    "elems (cells ?h2 (off_count ent)) [0, 0] = 0"
    "elems (cells ?h2 (on ent)) [0, 0, 0, 0, 0] = 16777216"
    "elems (cells ?h2 (on ent)) [0, 0, 0, 0, 1] = 1"
    using v2(1) v2(2) v2(3)[of 0 0 0] v2(3)[of 0 0 "Suc 0"]
    by (simp_all add: cov c2 s1 f24 f1 float32_16777217)
  show ?thesis
    apply (rule exI[of _ results], rule exI[of _ h], rule exI[of _ ?h2], rule exI[of _ ent])
    using init run ent s2 by simp
qed

text \<open>
  Claim C1 (count conservation). Start from the accumulators that
  \<^verbatim>\<open>initialize_results_dict\<close> returns for \<open>T\<close> thresholds and \<open>N\<close> features, and make any
  sequence of calls of \<^verbatim>\<open>aggregate_batch_statistics\<close> whose tensors have the shapes of their
  feature ranges, for a list of attribute functions without repetition. Every call returns.
  With the float32 accumulators of the source, for every attribute function, threshold \<open>t\<close>
  and feature \<open>f\<close> such that the calls whose feature range covers \<open>f\<close> have at most \<open>2 ^ 24\<close>
  positions (batch size times sequence length) together, \<open>on_count[t, f] + off_count[t, f]\<close>
  is that number of positions: each call adds exactly its \<open>B * L\<close> to the sum, for the
  features of its range. Over exact arithmetic the same holds without the bound.
\<close>

theorem count_conservation:
  assumes init: "initialize_results_dict ev cfs (int T) (int N) h0 = Inr (results, h)"
    and dist: "distinct cfs" and thr: "shape thr = [T, 1, 1, 1]"
    and calls: "\<forall>c\<in>set calls. exact_call (geometry ev) cfs N c"
  shows "(\<exists>h'. accumulate_calls_f32 results cfs thr calls h = Inr (results, h') \<and>
     (\<forall>cf\<in>set cfs. \<exists>ent. results cf = Some ent \<and>
        (\<forall>t<T. \<forall>f<N. positions_covering calls f \<le> 2 ^ 24 \<longrightarrow>
           elems (cells h' (on_count ent)) [t, f] + elems (cells h' (off_count ent)) [t, f] =
           real (positions_covering calls f)))) \<and>
   (\<exists>h'. accumulate_calls results cfs thr calls h = Inr (results, h') \<and>
     (\<forall>cf\<in>set cfs. \<exists>ent. results cf = Some ent \<and>
        (\<forall>t<T. \<forall>f<N.
           elems (cells h' (on_count ent)) [t, f] + elems (cells h' (off_count ent)) [t, f] =
           real (positions_covering calls f))))"
proof -
  from initialize_results_dict_wf[OF init] have
    wf: "wf_state (geometry ev) cfs T N results h" and
    zero: "\<forall>cf\<in>set cfs. \<exists>ent. results cf = Some ent \<and> zero_entry T N (geometry ev cf) h ent"
    by simp_all
  let ?hx = "calls_spec results cfs thr calls h"
  let ?hf = "calls_spec_f32 results cfs thr calls h"
  have runx: "accumulate_calls results cfs thr calls h = Inr (results, ?hx)"
    by (rule accumulate_calls_exact[OF wf calls thr])
  have runf: "accumulate_calls_f32 results cfs thr calls h = Inr (results, ?hf)"
    by (rule accumulate_calls_exact_f32[OF wf calls thr])
  have both: "\<exists>ent. results cf = Some ent \<and>
        (\<forall>t<T. \<forall>f<N. positions_covering calls f \<le> 2 ^ 24 \<longrightarrow>
           elems (cells ?hf (on_count ent)) [t, f] + elems (cells ?hf (off_count ent)) [t, f] =
           real (positions_covering calls f)) \<and>
        (\<forall>t<T. \<forall>f<N.
           elems (cells ?hx (on_count ent)) [t, f] + elems (cells ?hx (off_count ent)) [t, f] =
           real (positions_covering calls f))" if cf: "cf \<in> set cfs" for cf
  proof -
    from zero cf obtain ent where ent: "results cf = Some ent"
      and z: "zero_entry T N (geometry ev cf) h ent" by blast
    have x: "elems (cells ?hx (on_count ent)) [t, f] + elems (cells ?hx (off_count ent)) [t, f] =
           real (positions_covering calls f)" if "t < T" "f < N" for t f
      using calls_counts_total[OF wf dist calls cf ent that, of thr]
      by (simp add: zero_entryD[OF z] real_positions_covering)
    have f: "elems (cells ?hf (on_count ent)) [t, f] + elems (cells ?hf (off_count ent)) [t, f] =
           real (positions_covering calls f)"
      if tf: "t < T" "f < N" and b: "positions_covering calls f \<le> 2 ^ 24" for t f
    proof -
      have "elems (cells ?hf (on_count ent)) [t, f] = elems (cells ?hx (on_count ent)) [t, f]"
        by (rule calls_on_count_f32[OF wf wf dist calls cf ent tf, of 0])
           (use b in \<open>simp_all add: zero_entryD[OF z]\<close>)
      moreover have "elems (cells ?hf (off_count ent)) [t, f] = elems (cells ?hx (off_count ent)) [t, f]"
        by (rule calls_off_count_f32[OF wf wf dist calls cf ent tf, of 0])
           (use b in \<open>simp_all add: zero_entryD[OF z]\<close>)
      ultimately show ?thesis using x[OF tf] by simp
    qed
    from ent x f show ?thesis by blast
  qed
  have 1: "\<exists>h'. accumulate_calls_f32 results cfs thr calls h = Inr (results, h') \<and>
     (\<forall>cf\<in>set cfs. \<exists>ent. results cf = Some ent \<and>
        (\<forall>t<T. \<forall>f<N. positions_covering calls f \<le> 2 ^ 24 \<longrightarrow>
           elems (cells h' (on_count ent)) [t, f] + elems (cells h' (off_count ent)) [t, f] =
           real (positions_covering calls f)))"
    using runf both by blast
  have 2: "\<exists>h'. accumulate_calls results cfs thr calls h = Inr (results, h') \<and>
     (\<forall>cf\<in>set cfs. \<exists>ent. results cf = Some ent \<and>
        (\<forall>t<T. \<forall>f<N.
           elems (cells h' (on_count ent)) [t, f] + elems (cells h' (off_count ent)) [t, f] =
           real (positions_covering calls f)))"
    using runx both by blast
  from 1 2 show ?thesis by (rule conjI)
qed

theorem count_conservation_witness:
  "\<exists>results h h'.
     initialize_results_dict ex_env [''pin''] 2 2 ex_heap = Inr (results, h) \<and>
     accumulate_calls_f32 results [''pin''] ex_thr [ex_call, ex_call] h = Inr (results, h') \<and>
     positions_covering [ex_call, ex_call] 0 \<le> 2 ^ 24 \<and>
     elems (cells h' (on_count (the (results ''pin'')))) [1, 0] +
     elems (cells h' (off_count (the (results ''pin'')))) [1, 0] = 4"
proof -
  from ex_init obtain results h where
    init: "initialize_results_dict ex_env [''pin''] (int 2) (int 2) ex_heap = Inr (results, h)" by auto
  have calls: "\<forall>c\<in>set [ex_call, ex_call]. exact_call (geometry ex_env) [''pin''] 2 c"
    by (simp add: ex_exact_call)
  have pc: "positions_covering [ex_call, ex_call] 0 = 4"
    by (simp add: covers_def positions_def ex_call_def ex_acts_def)
  from conjunct1[OF count_conservation[OF init _ ex_thr_shape calls]] obtain h' ent where
    run: "accumulate_calls_f32 results [''pin''] ex_thr [ex_call, ex_call] h = Inr (results, h')" and
    ent: "results ''pin'' = Some ent" and
    v: "\<And>t f. t < 2 \<Longrightarrow> f < 2 \<Longrightarrow> positions_covering [ex_call, ex_call] f \<le> 2 ^ 24 \<Longrightarrow>
         elems (cells h' (on_count ent)) [t, f] + elems (cells h' (off_count ent)) [t, f] =
         real (positions_covering [ex_call, ex_call] f)"
    by auto
  have le: "positions_covering [ex_call, ex_call] 0 \<le> 2 ^ 24" unfolding pc by simp
  have "elems (cells h' (on_count ent)) [1, 0] + elems (cells h' (off_count ent)) [1, 0] =
      real (positions_covering [ex_call, ex_call] 0)"
    by (rule v[OF _ _ le]) simp_all
  then have "elems (cells h' (on_count ent)) [1, 0] + elems (cells h' (off_count ent)) [1, 0] = 4"
    unfolding pc by simp
  with init run ent le show ?thesis by auto
qed

text \<open>
  The equation of claim C1 fails in two ways. With float32 accumulators, after the two calls
  above the calls that cover feature 0 have \<open>2 ^ 24 + 1\<close> positions and the two counters add up
  to \<open>2 ^ 24\<close>. With an attribute function that is twice in the list, one call with one
  position adds 2 to the sum of the two counters: the loop over the attribute functions adds
  the counts once per element of the list.
\<close>

theorem count_conservation_fails:
  "\<exists>results h h' results2 h2 h2'.
     initialize_results_dict ex_env [''pin''] 2 1 ex_heap = Inr (results, h) \<and>
     accumulate_calls_f32 results [''pin''] ex_thr [big_call, one_call] h = Inr (results, h') \<and>
     positions_covering [big_call, one_call] 0 = 16777217 \<and>
     elems (cells h' (on_count (the (results ''pin'')))) [0, 0] +
     elems (cells h' (off_count (the (results ''pin'')))) [0, 0] = 16777216 \<and>
     initialize_results_dict ex_env [''pin'', ''pin''] 2 1 ex_heap = Inr (results2, h2) \<and>
     accumulate_calls_f32 results2 [''pin'', ''pin''] ex_thr [one_call] h2 = Inr (results2, h2') \<and>
     positions_covering [one_call] 0 = 1 \<and>
     elems (cells h2' (on_count (the (results2 ''pin'')))) [0, 0] +
     elems (cells h2' (off_count (the (results2 ''pin'')))) [0, 0] = 2"
proof -
  from big_run_values obtain results h h' ent where
    init: "initialize_results_dict ex_env [''pin''] 2 1 ex_heap = Inr (results, h)" and
    run: "accumulate_calls_f32 results [''pin''] ex_thr [big_call, one_call] h = Inr (results, h')" and
    ent: "results ''pin'' = Some ent" and
    v: "elems (cells h' (on_count ent)) [0, 0] = 16777216"
       "elems (cells h' (off_count ent)) [0, 0] = 0"
    by blast
  have pc: "positions_covering [big_call, one_call] 0 = 16777217"
    "positions_covering [one_call] 0 = 1"
    by (simp_all add: covers_def positions_def big_call_def one_call_def)
  have "\<exists>st'. for_each (initialize_function ex_env (int 2) (int 1)) [''pin'', ''pin'']
      (Map.empty, ex_heap) = Inr st'"
    by (rule for_each_initialize_total[where ev = ex_env and d = "''cpu''"])
       (simp_all add: ex_env_def)
  then obtain results2 h2 where
    init2: "initialize_results_dict ex_env [''pin'', ''pin''] (int 2) (int 1) ex_heap = Inr (results2, h2)"
    unfolding initialize_results_dict_def by auto
  from initialize_results_dict_wf[OF init2] have
    wf2: "wf_state (geometry ex_env) [''pin'', ''pin''] 2 1 results2 h2" by simp
  from initialize_results_dict_config[OF init2, of "''pin''"] obtain ent2 where
    ent2: "results2 ''pin'' = Some ent2" and
    z2: "zero_entry 2 1 (geometry ex_env ''pin'') h2 ent2" and
    d2: "distinct [on ent2, off ent2, on_count ent2, off_count ent2]"
    by auto
  have ex2: "exact_call (geometry ex_env) [''pin'', ''pin''] 1 one_call"
    by (simp add: exact_call_def wf_call_def one_call_def ex_geometry)
  let ?bd = "\<lparr>shape = [1, 1, 1, 1, 2], elems = \<lambda>idx. if idx ! 4 = 1 then 1 else 0 :: real\<rparr>"
  let ?acts = "\<lparr>shape = [1, 1, 1], elems = \<lambda>idx. 1 :: real\<rparr>"
  let ?g = "accumulate_spec_f32 ?acts ex_thr ?bd 0 1 ent2"
  let ?h2' = "?g (?g h2)"
  have "accumulate_calls_f32 results2 [''pin'', ''pin''] ex_thr [one_call] h2 =
      Inr (results2, calls_spec_f32 results2 [''pin'', ''pin''] ex_thr [one_call] h2)"
    by (rule accumulate_calls_exact_f32[OF wf2 _ ex_thr_shape]) (use ex2 in simp)
  also have "calls_spec_f32 results2 [''pin'', ''pin''] ex_thr [one_call] h2 = ?h2'"
    by (simp add: calls_spec_f32_def call_spec_f32_def function_spec_f32_def ent2 one_call_def)
  finally have run2:
    "accumulate_calls_f32 results2 [''pin'', ''pin''] ex_thr [one_call] h2 = Inr (results2, ?h2')" .
  from z2 have c0: "cells h2 (on_count ent2) = zeros [2, 1]" "cells h2 (off_count ent2) = zeros [2, 1]"
    by (simp_all add: zero_entry_def ex_geometry)
  have cnt: "count_on ?acts ex_thr 0 0 = 1" "count_off ?acts ex_thr 0 0 = 0"
    by (simp_all add: count_on_def count_off_def active_def ex_thr_def)
  have f1: "float32 1 = 1" using float32_of_nat[of 1] by simp
  have f2: "float32 2 = 2" using float32_of_nat[of 2] by simp
  have on2: "cells ?h2' (on_count ent2) =
      add_counts_f32 (add_counts_f32 (zeros [2, 1]) 0 1 (count_on ?acts ex_thr)) 0 1
        (count_on ?acts ex_thr)"
    using d2 by (simp add: accumulate_spec_f32_def c0)
  have off2: "cells ?h2' (off_count ent2) =
      add_counts_f32 (add_counts_f32 (zeros [2, 1]) 0 1 (count_off ?acts ex_thr)) 0 1
        (count_off ?acts ex_thr)"
    using d2 by (simp add: accumulate_spec_f32_def c0)
  have "elems (cells ?h2' (on_count ent2)) [0, 0] = 2"
    unfolding on2
    by (simp add: elems_add_counts_f32[where T = 2 and N = 1] zeros_def cnt[simplified] f1 f2)
  moreover have "elems (cells ?h2' (off_count ent2)) [0, 0] = 0"
    unfolding off2
    by (simp add: elems_add_counts_f32[where T = 2 and N = 1] zeros_def cnt[simplified])
  ultimately have v2: "elems (cells ?h2' (on_count ent2)) [0, 0] +
      elems (cells ?h2' (off_count ent2)) [0, 0] = 2" by simp
  show ?thesis
    apply (rule exI[of _ results], rule exI[of _ h], rule exI[of _ h'],
           rule exI[of _ results2], rule exI[of _ h2], rule exI[of _ ?h2'])
    using init run ent v pc init2 run2 ent2 v2 by simp
qed

text \<open>
  Claim C5 (threshold monotonicity). After any such sequence of calls from the initial
  accumulators, a threshold that is not larger has an \<open>on_count\<close> that is not smaller, for
  every attribute function and feature. The thresholds are compared by value; nothing is
  assumed about their order in the grid.
\<close>

theorem threshold_monotonicity:
  assumes init: "initialize_results_dict ev cfs (int T) (int N) h0 = Inr (results, h)"
    and dist: "distinct cfs" and thr: "shape thr = [T, 1, 1, 1]"
    and calls: "\<forall>c\<in>set calls. exact_call (geometry ev) cfs N c"
  shows "\<exists>h'. accumulate_calls results cfs thr calls h = Inr (results, h') \<and>
     (\<forall>cf\<in>set cfs. \<exists>ent. results cf = Some ent \<and>
        (\<forall>t1<T. \<forall>t2<T. \<forall>f<N.
           elems thr [t1, 0, 0, 0] \<le> elems thr [t2, 0, 0, 0] \<longrightarrow>
           elems (cells h' (on_count ent)) [t2, f] \<le> elems (cells h' (on_count ent)) [t1, f]))"
proof -
  from initialize_results_dict_wf[OF init] have
    wf: "wf_state (geometry ev) cfs T N results h" and
    zero: "\<forall>cf\<in>set cfs. \<exists>ent. results cf = Some ent \<and> zero_entry T N (geometry ev cf) h ent"
    by simp_all
  let ?h' = "calls_spec results cfs thr calls h"
  have run: "accumulate_calls results cfs thr calls h = Inr (results, ?h')"
    by (rule accumulate_calls_exact[OF wf calls thr])
  have "\<exists>ent. results cf = Some ent \<and>
        (\<forall>t1<T. \<forall>t2<T. \<forall>f<N.
           elems thr [t1, 0, 0, 0] \<le> elems thr [t2, 0, 0, 0] \<longrightarrow>
           elems (cells ?h' (on_count ent)) [t2, f] \<le> elems (cells ?h' (on_count ent)) [t1, f])"
    if cf: "cf \<in> set cfs" for cf
  proof -
    from zero cf obtain ent where ent: "results cf = Some ent"
      and z: "zero_entry T N (geometry ev cf) h ent" by blast
    have "elems (cells ?h' (on_count ent)) [t2, f] \<le> elems (cells ?h' (on_count ent)) [t1, f]"
      if "t1 < T" "t2 < T" "f < N" "elems thr [t1, 0, 0, 0] \<le> elems thr [t2, 0, 0, 0]" for t1 t2 f
      by (rule calls_counts_mono[OF wf dist calls cf ent that]) (simp add: zero_entryD[OF z])
    with ent show ?thesis by blast
  qed
  with run show ?thesis by blast
qed

theorem threshold_monotonicity_witness:
  "\<exists>results h h'.
     initialize_results_dict ex_env [''pin''] 2 2 ex_heap = Inr (results, h) \<and>
     accumulate_calls results [''pin''] ex_thr [ex_call] h = Inr (results, h') \<and>
     elems ex_thr [0, 0, 0, 0] \<le> elems ex_thr [1, 0, 0, 0] \<and>
     elems (cells h' (on_count (the (results ''pin'')))) [1, 0] \<le>
     elems (cells h' (on_count (the (results ''pin'')))) [0, 0]"
proof -
  from ex_init obtain results h where
    init: "initialize_results_dict ex_env [''pin''] (int 2) (int 2) ex_heap = Inr (results, h)" by auto
  have calls: "\<forall>c\<in>set [ex_call]. exact_call (geometry ex_env) [''pin''] 2 c"
    by (simp add: ex_exact_call)
  from threshold_monotonicity[OF init _ ex_thr_shape calls] obtain h' ent where
    run: "accumulate_calls results [''pin''] ex_thr [ex_call] h = Inr (results, h')" and
    ent: "results ''pin'' = Some ent" and
    v: "\<And>t1 t2 f. t1 < 2 \<Longrightarrow> t2 < 2 \<Longrightarrow> f < 2 \<Longrightarrow>
         elems ex_thr [t1, 0, 0, 0] \<le> elems ex_thr [t2, 0, 0, 0] \<Longrightarrow>
         elems (cells h' (on_count ent)) [t2, f] \<le> elems (cells h' (on_count ent)) [t1, f]"
    by auto
  have le: "elems ex_thr [0, 0, 0, 0] \<le> elems ex_thr [1, 0, 0, 0]" by (simp add: ex_thr_def)
  from v[of 0 1 0] le have
    "elems (cells h' (on_count ent)) [1, 0] \<le> elems (cells h' (on_count ent)) [0, 0]" by simp
  with init run ent le show ?thesis by auto
qed

text \<open>
  Claim C6 (sum conservation). After any such sequence of calls from the initial
  accumulators, for every attribute function, threshold, board cell and feature \<open>f\<close>: when
  the board tensor of the function is one-hot in every call, the entries of \<open>on\<close> summed over
  the classes equal \<open>on_count\<close>; when some positions may have all class entries 0 instead,
  the sum is at most \<open>on_count\<close>. With the float32 accumulators of the source this holds as
  long as the calls whose feature range covers \<open>f\<close> have at most \<open>2 ^ 24\<close> positions together;
  over exact arithmetic it holds without the bound.
\<close>

theorem sum_conservation:
  fixes ev :: "'c env"
  assumes init: "initialize_results_dict ev cfs (int T) (int N) h0 = Inr (results, h)"
    and dist: "distinct cfs" and thr: "shape thr = [T, 1, 1, 1]"
    and calls: "\<forall>c\<in>set calls. exact_call (geometry ev) cfs N c"
  shows "(\<exists>h'. accumulate_calls_f32 results cfs thr calls h = Inr (results, h') \<and>
     (\<forall>cf\<in>set cfs. \<exists>ent config. results cf = Some ent \<and> config_lookup ev cf = Some config \<and>
        ((\<forall>c\<in>set calls. \<forall>boards. call_batch_data c cf = Some boards \<longrightarrow> one_hot boards) \<longrightarrow>
           (\<forall>t<T. \<forall>f<N. \<forall>r<num_rows ev config. \<forall>x<num_cols ev config.
              positions_covering calls f \<le> 2 ^ 24 \<longrightarrow>
              (\<Sum>k<get_num_classes ev config. elems (cells h' (on ent)) [t, f, r, x, k]) =
              elems (cells h' (on_count ent)) [t, f])) \<and>
        ((\<forall>c\<in>set calls. \<forall>boards. call_batch_data c cf = Some boards \<longrightarrow> at_most_one_hot boards) \<longrightarrow>
           (\<forall>t<T. \<forall>f<N. \<forall>r<num_rows ev config. \<forall>x<num_cols ev config.
              positions_covering calls f \<le> 2 ^ 24 \<longrightarrow>
              (\<Sum>k<get_num_classes ev config. elems (cells h' (on ent)) [t, f, r, x, k]) \<le>
              elems (cells h' (on_count ent)) [t, f])))) \<and>
   (\<exists>h'. accumulate_calls results cfs thr calls h = Inr (results, h') \<and>
     (\<forall>cf\<in>set cfs. \<exists>ent config. results cf = Some ent \<and> config_lookup ev cf = Some config \<and>
        ((\<forall>c\<in>set calls. \<forall>boards. call_batch_data c cf = Some boards \<longrightarrow> one_hot boards) \<longrightarrow>
           (\<forall>t<T. \<forall>f<N. \<forall>r<num_rows ev config. \<forall>x<num_cols ev config.
              (\<Sum>k<get_num_classes ev config. elems (cells h' (on ent)) [t, f, r, x, k]) =
              elems (cells h' (on_count ent)) [t, f])) \<and>
        ((\<forall>c\<in>set calls. \<forall>boards. call_batch_data c cf = Some boards \<longrightarrow> at_most_one_hot boards) \<longrightarrow>
           (\<forall>t<T. \<forall>f<N. \<forall>r<num_rows ev config. \<forall>x<num_cols ev config.
              (\<Sum>k<get_num_classes ev config. elems (cells h' (on ent)) [t, f, r, x, k]) \<le>
              elems (cells h' (on_count ent)) [t, f]))))"
proof -
  from initialize_results_dict_wf[OF init] have
    wf: "wf_state (geometry ev) cfs T N results h" by simp
  let ?hx = "calls_spec results cfs thr calls h"
  let ?hf = "calls_spec_f32 results cfs thr calls h"
  have runx: "accumulate_calls results cfs thr calls h = Inr (results, ?hx)"
    by (rule accumulate_calls_exact[OF wf calls thr])
  have runf: "accumulate_calls_f32 results cfs thr calls h = Inr (results, ?hf)"
    by (rule accumulate_calls_exact_f32[OF wf calls thr])
  define PF where "PF ent config cf h' \<longleftrightarrow>
        ((\<forall>c\<in>set calls. \<forall>boards. call_batch_data c cf = Some boards \<longrightarrow> one_hot boards) \<longrightarrow>
           (\<forall>t<T. \<forall>f<N. \<forall>r<num_rows ev config. \<forall>x<num_cols ev config.
              positions_covering calls f \<le> 2 ^ 24 \<longrightarrow>
              (\<Sum>k<get_num_classes ev config. elems (cells h' (on ent)) [t, f, r, x, k]) =
              elems (cells h' (on_count ent)) [t, f])) \<and>
        ((\<forall>c\<in>set calls. \<forall>boards. call_batch_data c cf = Some boards \<longrightarrow> at_most_one_hot boards) \<longrightarrow>
           (\<forall>t<T. \<forall>f<N. \<forall>r<num_rows ev config. \<forall>x<num_cols ev config.
              positions_covering calls f \<le> 2 ^ 24 \<longrightarrow>
              (\<Sum>k<get_num_classes ev config. elems (cells h' (on ent)) [t, f, r, x, k]) \<le>
              elems (cells h' (on_count ent)) [t, f]))"
    for ent :: entry and config :: 'c and cf :: custom_function and h' :: heap
  define PX where "PX ent config cf h' \<longleftrightarrow>
        ((\<forall>c\<in>set calls. \<forall>boards. call_batch_data c cf = Some boards \<longrightarrow> one_hot boards) \<longrightarrow>
           (\<forall>t<T. \<forall>f<N. \<forall>r<num_rows ev config. \<forall>x<num_cols ev config.
              (\<Sum>k<get_num_classes ev config. elems (cells h' (on ent)) [t, f, r, x, k]) =
              elems (cells h' (on_count ent)) [t, f])) \<and>
        ((\<forall>c\<in>set calls. \<forall>boards. call_batch_data c cf = Some boards \<longrightarrow> at_most_one_hot boards) \<longrightarrow>
           (\<forall>t<T. \<forall>f<N. \<forall>r<num_rows ev config. \<forall>x<num_cols ev config.
              (\<Sum>k<get_num_classes ev config. elems (cells h' (on ent)) [t, f, r, x, k]) \<le>
              elems (cells h' (on_count ent)) [t, f]))"
    for ent :: entry and config :: 'c and cf :: custom_function and h' :: heap
  have both: "\<exists>ent config. results cf = Some ent \<and> config_lookup ev cf = Some config \<and>
      PF ent config cf ?hf \<and> PX ent config cf ?hx"
    if cf: "cf \<in> set cfs" for cf
  proof -
    from initialize_results_dict_config[OF init cf] obtain ent config where
      ent: "results cf = Some ent" and config: "config_lookup ev cf = Some config" and
      g: "geometry ev cf = (num_rows ev config, num_cols ev config, get_num_classes ev config)" and
      z: "zero_entry T N (geometry ev cf) h ent" by blast
    have eq: "(\<Sum>k<get_num_classes ev config. elems (cells ?hx (on ent)) [t, f, r, x, k]) =
              elems (cells ?hx (on_count ent)) [t, f]"
      if "\<forall>c\<in>set calls. \<forall>boards. call_batch_data c cf = Some boards \<longrightarrow> one_hot boards"
        "t < T" "f < N" "r < num_rows ev config" "x < num_cols ev config" for t f r x
      by (rule calls_sum_eq[OF wf dist calls cf ent g that(2-5) that(1)])
         (simp add: zero_entryD[OF z])
    have le: "(\<Sum>k<get_num_classes ev config. elems (cells ?hx (on ent)) [t, f, r, x, k]) \<le>
              elems (cells ?hx (on_count ent)) [t, f]"
      if "\<forall>c\<in>set calls. \<forall>boards. call_batch_data c cf = Some boards \<longrightarrow> at_most_one_hot boards"
        "t < T" "f < N" "r < num_rows ev config" "x < num_cols ev config" for t f r x
      by (rule calls_sum_le[OF wf dist calls cf ent g that(2-5) that(1)])
         (simp add: zero_entryD[OF z])
    have agree:
      "(\<Sum>k<get_num_classes ev config. elems (cells ?hf (on ent)) [t, f, r, x, k]) =
       (\<Sum>k<get_num_classes ev config. elems (cells ?hx (on ent)) [t, f, r, x, k]) \<and>
       elems (cells ?hf (on_count ent)) [t, f] = elems (cells ?hx (on_count ent)) [t, f]"
      if hot: "\<forall>c\<in>set calls. \<forall>boards. call_batch_data c cf = Some boards \<longrightarrow> at_most_one_hot boards"
        and tf: "t < T" "f < N" and rx: "r < num_rows ev config" "x < num_cols ev config"
        and b: "positions_covering calls f \<le> 2 ^ 24" for t f r x
    proof
      show "(\<Sum>k<get_num_classes ev config. elems (cells ?hf (on ent)) [t, f, r, x, k]) =
            (\<Sum>k<get_num_classes ev config. elems (cells ?hx (on ent)) [t, f, r, x, k])"
      proof (rule sum.cong[OF refl])
        fix k assume "k \<in> {..<get_num_classes ev config}"
        then have k: "k < get_num_classes ev config" by simp
        show "elems (cells ?hf (on ent)) [t, f, r, x, k] = elems (cells ?hx (on ent)) [t, f, r, x, k]"
          by (rule calls_on_f32[OF wf wf dist calls cf ent g tf rx k hot, of 0])
             (use b in \<open>simp_all add: zero_entryD[OF z]\<close>)
      qed
      show "elems (cells ?hf (on_count ent)) [t, f] = elems (cells ?hx (on_count ent)) [t, f]"
        by (rule calls_on_count_f32[OF wf wf dist calls cf ent tf, of 0])
           (use b in \<open>simp_all add: zero_entryD[OF z]\<close>)
    qed
    have hot_le: "\<forall>c\<in>set calls. \<forall>boards. call_batch_data c cf = Some boards \<longrightarrow> at_most_one_hot boards"
      if "\<forall>c\<in>set calls. \<forall>boards. call_batch_data c cf = Some boards \<longrightarrow> one_hot boards"
    proof (intro ballI allI impI)
      fix c boards assume "c \<in> set calls" "call_batch_data c cf = Some boards"
      with that have "one_hot boards" by blast
      then show "at_most_one_hot boards" by (rule one_hot_at_most)
    qed
    have pf: "PF ent config cf ?hf"
      unfolding PF_def
    proof (intro conjI impI allI)
      fix t f r x
      assume a: "\<forall>c\<in>set calls. \<forall>boards. call_batch_data c cf = Some boards \<longrightarrow> one_hot boards"
        "t < T" "f < N" "r < num_rows ev config" "x < num_cols ev config"
        "positions_covering calls f \<le> 2 ^ 24"
      from agree[OF hot_le[OF a(1)] a(2-6)] eq[OF a(1-5)]
      show "(\<Sum>k<get_num_classes ev config. elems (cells ?hf (on ent)) [t, f, r, x, k]) =
              elems (cells ?hf (on_count ent)) [t, f]" by simp
    next
      fix t f r x
      assume a: "\<forall>c\<in>set calls. \<forall>boards. call_batch_data c cf = Some boards \<longrightarrow> at_most_one_hot boards"
        "t < T" "f < N" "r < num_rows ev config" "x < num_cols ev config"
        "positions_covering calls f \<le> 2 ^ 24"
      from agree[OF a] le[OF a(1-5)]
      show "(\<Sum>k<get_num_classes ev config. elems (cells ?hf (on ent)) [t, f, r, x, k]) \<le>
              elems (cells ?hf (on_count ent)) [t, f]" by simp
    qed
    have px: "PX ent config cf ?hx"
      unfolding PX_def
    proof (intro conjI impI allI)
      fix t f r x
      assume "\<forall>c\<in>set calls. \<forall>boards. call_batch_data c cf = Some boards \<longrightarrow> one_hot boards"
        "t < T" "f < N" "r < num_rows ev config" "x < num_cols ev config"
      then show "(\<Sum>k<get_num_classes ev config. elems (cells ?hx (on ent)) [t, f, r, x, k]) =
              elems (cells ?hx (on_count ent)) [t, f]" by (rule eq)
    next
      fix t f r x
      assume "\<forall>c\<in>set calls. \<forall>boards. call_batch_data c cf = Some boards \<longrightarrow> at_most_one_hot boards"
        "t < T" "f < N" "r < num_rows ev config" "x < num_cols ev config"
      then show "(\<Sum>k<get_num_classes ev config. elems (cells ?hx (on ent)) [t, f, r, x, k]) \<le>
              elems (cells ?hx (on_count ent)) [t, f]" by (rule le)
    qed
    from ent config pf px show ?thesis by blast
  qed
  have 1: "\<exists>h'. accumulate_calls_f32 results cfs thr calls h = Inr (results, h') \<and>
     (\<forall>cf\<in>set cfs. \<exists>ent config. results cf = Some ent \<and> config_lookup ev cf = Some config \<and>
        PF ent config cf h')"
    using runf both by blast
  have 2: "\<exists>h'. accumulate_calls results cfs thr calls h = Inr (results, h') \<and>
     (\<forall>cf\<in>set cfs. \<exists>ent config. results cf = Some ent \<and> config_lookup ev cf = Some config \<and>
        PX ent config cf h')"
    using runx both by blast
  from 1 2 show ?thesis unfolding PF_def PX_def by (rule conjI)
qed

lemma ex_one_hot: "one_hot ex_boards"
  by (auto simp: one_hot_def one_hot_at_def ex_boards_def)

theorem sum_conservation_witness:
  "\<exists>results h h'.
     initialize_results_dict ex_env [''pin''] 2 2 ex_heap = Inr (results, h) \<and>
     accumulate_calls_f32 results [''pin''] ex_thr [ex_call] h = Inr (results, h') \<and>
     one_hot ex_boards \<and> positions_covering [ex_call] 0 \<le> 2 ^ 24 \<and>
     (\<Sum>k<2. elems (cells h' (on (the (results ''pin'')))) [1, 0, 0, 0, k]) =
     elems (cells h' (on_count (the (results ''pin'')))) [1, 0]"
proof -
  from ex_init obtain results h where
    init: "initialize_results_dict ex_env [''pin''] (int 2) (int 2) ex_heap = Inr (results, h)" by auto
  have calls: "\<forall>c\<in>set [ex_call]. exact_call (geometry ex_env) [''pin''] 2 c"
    by (simp add: ex_exact_call)
  have hot: "\<forall>c\<in>set [ex_call]. \<forall>boards. call_batch_data c ''pin'' = Some boards \<longrightarrow> one_hot boards"
    by (simp add: ex_call_def ex_one_hot)
  have pc: "positions_covering [ex_call] 0 = 2"
    by (simp add: covers_def positions_def ex_call_def ex_acts_def)
  have le: "positions_covering [ex_call] 0 \<le> 2 ^ 24" unfolding pc by simp
  have d: "distinct [''pin'']" by simp
  note sc = conjunct1[OF sum_conservation[OF init d ex_thr_shape calls]]
  have "\<exists>h'. accumulate_calls_f32 results [''pin''] ex_thr [ex_call] h = Inr (results, h') \<and>
      (\<exists>ent. results ''pin'' = Some ent \<and>
        (\<Sum>k<2. elems (cells h' (on ent)) [1, 0, 0, 0, k]) = elems (cells h' (on_count ent)) [1, 0])"
  proof -
    from sc obtain h' where
      run: "accumulate_calls_f32 results [''pin''] ex_thr [ex_call] h = Inr (results, h')" and
      all: "\<forall>cf\<in>set [''pin'']. \<exists>ent config. results cf = Some ent \<and>
         config_lookup ex_env cf = Some config \<and>
        ((\<forall>c\<in>set [ex_call]. \<forall>boards. call_batch_data c cf = Some boards \<longrightarrow> one_hot boards) \<longrightarrow>
           (\<forall>t<2. \<forall>f<2. \<forall>r<num_rows ex_env config. \<forall>x<num_cols ex_env config.
              positions_covering [ex_call] f \<le> 2 ^ 24 \<longrightarrow>
              (\<Sum>k<get_num_classes ex_env config. elems (cells h' (on ent)) [t, f, r, x, k]) =
              elems (cells h' (on_count ent)) [t, f])) \<and>
        ((\<forall>c\<in>set [ex_call]. \<forall>boards. call_batch_data c cf = Some boards \<longrightarrow> at_most_one_hot boards) \<longrightarrow>
           (\<forall>t<2. \<forall>f<2. \<forall>r<num_rows ex_env config. \<forall>x<num_cols ex_env config.
              positions_covering [ex_call] f \<le> 2 ^ 24 \<longrightarrow>
              (\<Sum>k<get_num_classes ex_env config. elems (cells h' (on ent)) [t, f, r, x, k]) \<le>
              elems (cells h' (on_count ent)) [t, f]))"
      by (elim exE conjE) simp
    from all obtain ent config where ent: "results ''pin'' = Some ent" and
      v: "(\<forall>c\<in>set [ex_call]. \<forall>boards. call_batch_data c ''pin'' = Some boards \<longrightarrow> one_hot boards) \<longrightarrow>
           (\<forall>t<2. \<forall>f<2. \<forall>r<num_rows ex_env config. \<forall>x<num_cols ex_env config.
              positions_covering [ex_call] f \<le> 2 ^ 24 \<longrightarrow>
              (\<Sum>k<get_num_classes ex_env config. elems (cells h' (on ent)) [t, f, r, x, k]) =
              elems (cells h' (on_count ent)) [t, f])"
      by (elim ballE[of _ _ "''pin''"] exE conjE) simp_all
    from v hot have "\<forall>t<2. \<forall>f<2. \<forall>r<num_rows ex_env config. \<forall>x<num_cols ex_env config.
              positions_covering [ex_call] f \<le> 2 ^ 24 \<longrightarrow>
              (\<Sum>k<get_num_classes ex_env config. elems (cells h' (on ent)) [t, f, r, x, k]) =
              elems (cells h' (on_count ent)) [t, f]" by (rule mp)
    then have "positions_covering [ex_call] 0 \<le> 2 ^ 24 \<longrightarrow>
        (\<Sum>k<get_num_classes ex_env config. elems (cells h' (on ent)) [1, 0, 0, 0, k]) =
        elems (cells h' (on_count ent)) [1, 0]"
      by (simp add: ex_env_def)
    with le have "(\<Sum>k<2. elems (cells h' (on ent)) [1, 0, 0, 0, k]) =
        elems (cells h' (on_count ent)) [1, 0]"
      by (simp add: ex_env_def)
    with run ent show ?thesis by blast
  qed
  then obtain h' ent where
    run: "accumulate_calls_f32 results [''pin''] ex_thr [ex_call] h = Inr (results, h')" and
    ent: "results ''pin'' = Some ent" and
    "(\<Sum>k<2. elems (cells h' (on ent)) [1, 0, 0, 0, k]) = elems (cells h' (on_count ent)) [1, 0]"
    by blast
  with init run ent ex_one_hot le show ?thesis by auto
qed

text \<open>
  Both parts of claim C6 fail with float32 accumulators past \<open>2 ^ 24\<close> positions. After the two
  calls above, whose boards are one-hot, the two class entries of \<open>on\<close> for the only board
  cell add up to \<open>2 ^ 24 + 1\<close>, and \<open>on_count\<close> is \<open>2 ^ 24\<close>.
\<close>

theorem sum_conservation_fails:
  "\<exists>results h h'.
     initialize_results_dict ex_env [''pin''] 2 1 ex_heap = Inr (results, h) \<and>
     accumulate_calls_f32 results [''pin''] ex_thr [big_call, one_call] h = Inr (results, h') \<and>
     one_hot (the (call_batch_data big_call ''pin'')) \<and>
     one_hot (the (call_batch_data one_call ''pin'')) \<and>
     (\<Sum>k<2. elems (cells h' (on (the (results ''pin'')))) [0, 0, 0, 0, k]) = 16777217 \<and>
     elems (cells h' (on_count (the (results ''pin'')))) [0, 0] = 16777216"
proof -
  from big_run_values obtain results h h' ent where
    init: "initialize_results_dict ex_env [''pin''] 2 1 ex_heap = Inr (results, h)" and
    run: "accumulate_calls_f32 results [''pin''] ex_thr [big_call, one_call] h = Inr (results, h')" and
    ent: "results ''pin'' = Some ent" and
    v: "elems (cells h' (on_count ent)) [0, 0] = 16777216"
       "elems (cells h' (on ent)) [0, 0, 0, 0, 0] = 16777216"
       "elems (cells h' (on ent)) [0, 0, 0, 0, 1] = 1"
    by blast
  have hot: "one_hot (the (call_batch_data big_call ''pin''))"
    "one_hot (the (call_batch_data one_call ''pin''))"
    by (auto simp: one_hot_def one_hot_at_def big_call_def one_call_def)
  have two: "{..<2::nat} = {0, 1}" by auto
  have "(\<Sum>k<2. elems (cells h' (on ent)) [0, 0, 0, 0, k]) = 16777217"
    using v(2,3) by (simp add: two)
  with init run ent v(1) hot show ?thesis by auto
qed







text \<open>
  Claim C10 (initialisation). Called with its three arguments, with positive numbers of
  thresholds and features, \<^verbatim>\<open>initialize_results_dict\<close> returns when the module-level name
  \<^verbatim>\<open>device\<close> is bound to a device that torch accepts and \<^verbatim>\<open>chess_utils.config_lookup\<close> has
  a config for every attribute function of the list. It then gives, for every attribute
  function, four tensors whose entries are all 0, of shapes (T, N, rows, cols, classes) for
  \<open>on\<close> and \<open>off\<close> and (T, N) for \<open>on_count\<close> and \<open>off_count\<close>. Within each pair the two
  tensors are different objects: storing a new tensor at one of the two leaves the other as
  it is.
\<close>

theorem initialize_results_dict_zeros:
  assumes pos: "0 < num_thresholds" "0 < num_features"
    and dev: "module_device ev = Some d" "device_ok ev d"
    and cfg: "\<forall>cf\<in>set cfs. cf \<in> dom (config_lookup ev)"
  shows "\<exists>results h'. initialize_results_dict ev cfs num_thresholds num_features h = Inr (results, h') \<and>
     (\<forall>cf\<in>set cfs. \<exists>ent config. results cf = Some ent \<and> config_lookup ev cf = Some config \<and>
        shape (cells h' (on ent)) = [nat num_thresholds, nat num_features,
           num_rows ev config, num_cols ev config, get_num_classes ev config] \<and>
        shape (cells h' (off ent)) = [nat num_thresholds, nat num_features,
           num_rows ev config, num_cols ev config, get_num_classes ev config] \<and>
        shape (cells h' (on_count ent)) = [nat num_thresholds, nat num_features] \<and>
        shape (cells h' (off_count ent)) = [nat num_thresholds, nat num_features] \<and>
        (\<forall>idx. elems (cells h' (on ent)) idx = 0 \<and> elems (cells h' (off ent)) idx = 0 \<and>
               elems (cells h' (on_count ent)) idx = 0 \<and> elems (cells h' (off_count ent)) idx = 0) \<and>
        on ent \<noteq> off ent \<and> on_count ent \<noteq> off_count ent \<and>
        (\<forall>t. cells (store (on ent) t h') (off ent) = cells h' (off ent)) \<and>
        (\<forall>t. cells (store (off ent) t h') (on ent) = cells h' (on ent)) \<and>
        (\<forall>t. cells (store (on_count ent) t h') (off_count ent) = cells h' (off_count ent)) \<and>
        (\<forall>t. cells (store (off_count ent) t h') (on_count ent) = cells h' (on_count ent)))"
proof -
  define T where "T = nat num_thresholds"
  define N where "N = nat num_features"
  from pos have ints: "num_thresholds = int T" "num_features = int N" by (simp_all add: T_def N_def)
  from for_each_initialize_total[OF dev cfg, of T N "(Map.empty, h)"] obtain results h' where
    init: "initialize_results_dict ev cfs (int T) (int N) h = Inr (results, h')"
    unfolding initialize_results_dict_def by (metis surj_pair)
  have "\<exists>ent config. results cf = Some ent \<and> config_lookup ev cf = Some config \<and>
        shape (cells h' (on ent)) = [T, N, num_rows ev config, num_cols ev config, get_num_classes ev config] \<and>
        shape (cells h' (off ent)) = [T, N, num_rows ev config, num_cols ev config, get_num_classes ev config] \<and>
        shape (cells h' (on_count ent)) = [T, N] \<and>
        shape (cells h' (off_count ent)) = [T, N] \<and>
        (\<forall>idx. elems (cells h' (on ent)) idx = 0 \<and> elems (cells h' (off ent)) idx = 0 \<and>
               elems (cells h' (on_count ent)) idx = 0 \<and> elems (cells h' (off_count ent)) idx = 0) \<and>
        on ent \<noteq> off ent \<and> on_count ent \<noteq> off_count ent \<and>
        (\<forall>t. cells (store (on ent) t h') (off ent) = cells h' (off ent)) \<and>
        (\<forall>t. cells (store (off ent) t h') (on ent) = cells h' (on ent)) \<and>
        (\<forall>t. cells (store (on_count ent) t h') (off_count ent) = cells h' (off_count ent)) \<and>
        (\<forall>t. cells (store (off_count ent) t h') (on_count ent) = cells h' (on_count ent))"
    if cf: "cf \<in> set cfs" for cf
  proof -
    from initialize_results_dict_config[OF init cf] obtain ent config where
      ent: "results cf = Some ent" and config: "config_lookup ev cf = Some config" and
      g: "geometry ev cf = (num_rows ev config, num_cols ev config, get_num_classes ev config)" and
      z: "zero_entry T N (geometry ev cf) h' ent" and
      d: "distinct [on ent, off ent, on_count ent, off_count ent]" by blast
    from z g have c: "cells h' (on ent) =
        zeros [T, N, num_rows ev config, num_cols ev config, get_num_classes ev config]"
      "cells h' (off ent) =
        zeros [T, N, num_rows ev config, num_cols ev config, get_num_classes ev config]"
      "cells h' (on_count ent) = zeros [T, N]" "cells h' (off_count ent) = zeros [T, N]"
      by (simp_all add: zero_entry_def)
    show ?thesis
      apply (rule exI[of _ ent], rule exI[of _ config])
      using ent config d by (simp add: c zeros_def store_def)
  qed
  then show ?thesis unfolding ints nat_int
    by (intro exI[of _ results] exI[of _ h'] conjI ballI) (rule init, blast)
qed

theorem initialize_results_dict_zeros_witness:
  "\<exists>results h'. initialize_results_dict ex_env [''pin''] 2 2 ex_heap = Inr (results, h') \<and>
     shape (cells h' (on (the (results ''pin'')))) = [2, 2, 1, 1, 2] \<and>
     elems (cells h' (on (the (results ''pin'')))) [0, 0, 0, 0, 0] = 0 \<and>
     on (the (results ''pin'')) \<noteq> off (the (results ''pin'')) \<and>
     on_count (the (results ''pin'')) \<noteq> off_count (the (results ''pin''))"
proof -
  have "\<forall>cf\<in>set [''pin'']. cf \<in> dom (config_lookup ex_env)" by (simp add: ex_env_def)
  from initialize_results_dict_zeros[of 2 2 ex_env "''cpu''" "[''pin'']" ex_heap, OF _ _ _ _ this]
  obtain results h' ent config where
    "initialize_results_dict ex_env [''pin''] 2 2 ex_heap = Inr (results, h')"
    "results ''pin'' = Some ent"
    "shape (cells h' (on ent)) = [nat 2, nat 2, num_rows ex_env config, num_cols ex_env config,
        get_num_classes ex_env config]"
    "\<forall>idx. elems (cells h' (on ent)) idx = 0"
    "on ent \<noteq> off ent" "on_count ent \<noteq> off_count ent"
    by (auto simp: ex_env_def)
  then show ?thesis by (auto simp: ex_env_def)
qed

text \<open>
  Without these conditions the call of claim C10 does not return, for a list of one
  attribute function and positive numbers of thresholds and features: NameError when the
  module-level name \<^verbatim>\<open>device\<close> is not bound (the module is imported, not run as a script),
  RuntimeError when it is bound to a device that torch does not accept, KeyError for an
  attribute function without a config.
\<close>

theorem initialize_results_dict_fails:
  "initialize_results_dict (ex_env\<lparr>module_device := None\<rparr>) [''pin''] 10 2 ex_heap = Inl NameError \<and>
   initialize_results_dict (ex_env\<lparr>module_device := Some ''bogus''\<rparr>) [''pin''] 10 2 ex_heap =
     Inl RuntimeError \<and>
   initialize_results_dict ex_env [''rook''] 10 2 ex_heap = Inl KeyError"
  by (simp add: initialize_results_dict_def initialize_function_def to_module_device_def
        to_device_def alloc_def Let_def ex_env_def)

subsection \<open>The run up to line 169\<close>

lemma call_initialize_results_dict:
  "call3 (\<lambda>fs t f. initialize_results_dict ev fs t f h) (Some cfs) (Some n) None = Inl TypeError"
  by (simp add: call3_def)

lemma len_thresholds: "len_tensor thresholds_T111 = Inr 10"
  by (simp add: len_tensor_def thresholds_T111_def)

lemma aggregate_statistics_load_fails:
  assumes "load_run ev autoencoder_path batch_size device model_path data_path = Inl e"
  shows "aggregate_statistics ev cfs autoencoder_path n_inputs batch_size device model_path
           data_path rs = (Some e, rs)"
  using assms by (simp add: aggregate_statistics_def)

lemma aggregate_statistics_loaded:
  assumes "load_run ev autoencoder_path batch_size device model_path data_path = Inr ev'"
  shows "aggregate_statistics ev cfs autoencoder_path n_inputs batch_size device model_path
           data_path rs =
         (if \<not> n_inputs \<le> int (length (pgn_strings ev')) then (Some AssertionError, rs)
          else if batch_size = 0 then (Some ZeroDivisionError, rs)
          else if \<not> n_inputs mod batch_size = 0 then (Some AssertionError, rs)
          else (Some TypeError, rs))"
proof -
  from assms have ok: "device_ok ev device"
    by (auto simp: load_run_def arange_len_def ebind_eq_Inr split: if_splits)
  from assms have same: "device_ok ev' = device_ok ev"
    by (auto simp: load_run_def ebind_eq_Inr)
  show ?thesis
    using assms ok same
    by (simp add: aggregate_statistics_def Let_def to_device_def len_thresholds
          call_initialize_results_dict)
qed

lemma ex_load_run:
  "load_run ex_env ap b ''cpu'' mp ''data.pkl'' = Inr ex_env"
  by (simp add: load_run_def load_dataset_def to_device_def arange_len_def ex_env_def)

lemma ex_missing:
  "load_run ex_env ''autoencoders'' 1 ''cpu'' ''models'' ''missing.pkl'' = Inl OSError"
  by (simp add: load_run_def load_dataset_def ex_env_def)

text \<open>
  Claim C2 (the call at line 169). \<^verbatim>\<open>aggregate_statistics\<close> passes two arguments to
  \<^verbatim>\<open>initialize_results_dict\<close>, which has three required parameters, so the call raises
  TypeError. Hence no run gets past line 169: every run ends with an exception and with the
  state it started with, so no call of \<^verbatim>\<open>aggregate_batch_statistics\<close> is recorded and
  \<^verbatim>\<open>results.pkl\<close> is not written. A run that reaches line 169, that is a run whose dataset and
  autoencoder load and whose two assertions pass (with a batch size other than 0), ends
  there, with TypeError; the other runs end before that line. The function also reads the
  name \<^verbatim>\<open>device\<close>, which is not one of its parameters: called with three arguments while the
  module-level name is not bound, it raises NameError as soon as the list of attribute
  functions is not empty.
\<close>

theorem aggregate_statistics_fails_at_initialization:
  "fst (aggregate_statistics ev cfs autoencoder_path n_inputs batch_size device model_path
          data_path rs) \<noteq> None \<and>
   snd (aggregate_statistics ev cfs autoencoder_path n_inputs batch_size device model_path
          data_path rs) = rs \<and>
   (load_run ev autoencoder_path batch_size device model_path data_path = Inr ev' \<and>
    n_inputs \<le> int (length (pgn_strings ev')) \<and> batch_size \<noteq> 0 \<and> n_inputs mod batch_size = 0 \<longrightarrow>
      aggregate_statistics ev cfs autoencoder_path n_inputs batch_size device model_path
        data_path rs = (Some TypeError, rs)) \<and>
   (module_device ev = None \<and> cf \<in> dom (config_lookup ev) \<and> 0 \<le> T \<and> 0 \<le> N \<longrightarrow>
      initialize_results_dict ev (cf # cfs) T N h = Inl NameError)"
proof -
  let ?run = "aggregate_statistics ev cfs autoencoder_path n_inputs batch_size device model_path
          data_path rs"
  have 12: "fst ?run \<noteq> None \<and> snd ?run = rs"
  proof (cases "load_run ev autoencoder_path batch_size device model_path data_path")
    case (Inl e)
    then show ?thesis by (simp add: aggregate_statistics_load_fails)
  next
    case (Inr ev')
    then show ?thesis by (simp add: aggregate_statistics_loaded)
  qed
  have 3: "?run = (Some TypeError, rs)"
    if "load_run ev autoencoder_path batch_size device model_path data_path = Inr ev'"
      "n_inputs \<le> int (length (pgn_strings ev'))" "batch_size \<noteq> 0" "n_inputs mod batch_size = 0"
    using that by (simp add: aggregate_statistics_loaded)
  have 4: "initialize_results_dict ev (cf # cfs) T N h = Inl NameError"
    if "module_device ev = None" "cf \<in> dom (config_lookup ev)" "0 \<le> T" "0 \<le> N"
    using that
    by (auto simp: initialize_results_dict_def initialize_function_def to_module_device_def
          alloc_def Let_def)
  from 12 have 1: "fst ?run \<noteq> None" and 2: "snd ?run = rs" by simp_all
  show ?thesis
    by (intro conjI impI; (elim conjE)?) (rule 1 2 3 4; assumption)+
qed

theorem aggregate_statistics_fails_at_initialization_witness:
  "load_run ex_env ''autoencoders'' 1 ''cpu'' ''models'' ''data.pkl'' = Inr ex_env \<and>
   (1::int) \<le> int (length (pgn_strings ex_env)) \<and> (1::int) \<noteq> 0 \<and> (1::int) mod 1 = 0 \<and>
   aggregate_statistics ex_env [''pin''] ''autoencoders'' 1 1 ''cpu'' ''models'' ''data.pkl''
     ex_run_state = (Some TypeError, ex_run_state) \<and>
   initialize_results_dict (ex_env\<lparr>module_device := None\<rparr>) [''pin''] 10 2 ex_heap = Inl NameError"
  using aggregate_statistics_fails_at_initialization
    [of ex_env "[''pin'']" "''autoencoders''" 1 1 "''cpu''" "''models''" "''data.pkl''"
        ex_run_state ex_env "''pin''" 10 2 ex_heap]
    aggregate_statistics_fails_at_initialization
    [of "ex_env\<lparr>module_device := None\<rparr>" "[]" "''autoencoders''" 1 1 "''cpu''" "''models''"
        "''data.pkl''" ex_run_state ex_env "''pin''" 10 2 ex_heap]
    ex_load_run[of "''autoencoders''" 1 "''models''"]
  by (simp add: ex_env_def)

text \<open>
  Not every run ends at that call, as claim C2 has it. A run that asks for two inputs of a
  dataset with one game string ends at line 159, with AssertionError; a run on a device
  that torch does not accept ends at line 148, with RuntimeError; a run whose data file
  cannot be opened ends at line 142.
\<close>

theorem aggregate_statistics_fails_before_initialization:
  "aggregate_statistics ex_env [''pin''] ''autoencoders'' 2 1 ''cpu'' ''models'' ''data.pkl''
     ex_run_state = (Some AssertionError, ex_run_state) \<and>
   aggregate_statistics ex_env [''pin''] ''autoencoders'' 1 1 ''bogus'' ''models'' ''data.pkl''
     ex_run_state = (Some RuntimeError, ex_run_state) \<and>
   aggregate_statistics ex_env [''pin''] ''autoencoders'' 1 1 ''cpu'' ''models'' ''missing.pkl''
     ex_run_state = (Some OSError, ex_run_state)"
proof -
  have 1: "aggregate_statistics ex_env [''pin''] ''autoencoders'' 2 1 ''cpu'' ''models'' ''data.pkl''
     ex_run_state = (Some AssertionError, ex_run_state)"
    by (simp add: aggregate_statistics_loaded[OF ex_load_run]) (simp add: ex_env_def)
  have "load_run ex_env ''autoencoders'' 1 ''bogus'' ''models'' ''data.pkl'' = Inl RuntimeError"
    by (simp add: load_run_def load_dataset_def to_device_def ex_env_def)
  then have 2: "aggregate_statistics ex_env [''pin''] ''autoencoders'' 1 1 ''bogus'' ''models''
     ''data.pkl'' ex_run_state = (Some RuntimeError, ex_run_state)"
    by (rule aggregate_statistics_load_fails)
  have "load_run ex_env ''autoencoders'' 1 ''cpu'' ''models'' ''missing.pkl'' = Inl OSError"
    by (simp add: load_run_def load_dataset_def ex_env_def)
  then have 3: "aggregate_statistics ex_env [''pin''] ''autoencoders'' 1 1 ''cpu'' ''models''
     ''missing.pkl'' ex_run_state = (Some OSError, ex_run_state)"
    by (rule aggregate_statistics_load_fails)
  from 1 2 3 show ?thesis by simp
qed

text \<open>
  Claim C8 (fail-fast preconditions). For a run whose dataset and autoencoder load (lines
  139--157 return): with fewer game strings than \<open>n_inputs\<close> it ends with AssertionError (line
  159), whatever the batch size; with a batch size other than 0 that does not divide
  \<open>n_inputs\<close> it ends with AssertionError (lines 159 or 160). In both cases the state is the
  one the run started with: no batch is processed and nothing is written. With enough game
  strings and a batch size other than 0 that divides \<open>n_inputs\<close>, the run does not end with
  AssertionError. For a batch size of 0 line 160 raises ZeroDivisionError when line 159
  passes, and a run whose loading raises ends with that exception; in both cases the state
  is unchanged as well.
\<close>

theorem aggregate_statistics_preconditions:
  "(load_run ev autoencoder_path batch_size device model_path data_path = Inr ev' \<and>
    \<not> n_inputs \<le> int (length (pgn_strings ev')) \<longrightarrow>
      aggregate_statistics ev cfs autoencoder_path n_inputs batch_size device model_path
        data_path rs = (Some AssertionError, rs)) \<and>
   (load_run ev autoencoder_path batch_size device model_path data_path = Inr ev' \<and>
    batch_size \<noteq> 0 \<and> \<not> batch_size dvd n_inputs \<longrightarrow>
      aggregate_statistics ev cfs autoencoder_path n_inputs batch_size device model_path
        data_path rs = (Some AssertionError, rs)) \<and>
   (load_run ev autoencoder_path batch_size device model_path data_path = Inr ev' \<and>
    n_inputs \<le> int (length (pgn_strings ev')) \<and> batch_size \<noteq> 0 \<and> batch_size dvd n_inputs \<longrightarrow>
      fst (aggregate_statistics ev cfs autoencoder_path n_inputs batch_size device model_path
             data_path rs) \<noteq> Some AssertionError) \<and>
   (load_run ev autoencoder_path batch_size device model_path data_path = Inr ev' \<and>
    n_inputs \<le> int (length (pgn_strings ev')) \<and> batch_size = 0 \<longrightarrow>
      aggregate_statistics ev cfs autoencoder_path n_inputs batch_size device model_path
        data_path rs = (Some ZeroDivisionError, rs)) \<and>
   (load_run ev autoencoder_path batch_size device model_path data_path = Inl e \<longrightarrow>
      aggregate_statistics ev cfs autoencoder_path n_inputs batch_size device model_path
        data_path rs = (Some e, rs))"
proof -
  let ?run = "aggregate_statistics ev cfs autoencoder_path n_inputs batch_size device model_path
          data_path rs"
  let ?load = "load_run ev autoencoder_path batch_size device model_path data_path"
  have 1: "?run = (Some AssertionError, rs)"
    if "?load = Inr ev'" "\<not> n_inputs \<le> int (length (pgn_strings ev'))"
    using that by (simp add: aggregate_statistics_loaded)
  have 2: "?run = (Some AssertionError, rs)"
    if "?load = Inr ev'" "batch_size \<noteq> 0" "\<not> batch_size dvd n_inputs"
    using that by (simp add: aggregate_statistics_loaded dvd_eq_mod_eq_0)
  have 3: "fst ?run \<noteq> Some AssertionError"
    if "?load = Inr ev'" "n_inputs \<le> int (length (pgn_strings ev'))" "batch_size \<noteq> 0"
      "batch_size dvd n_inputs"
    using that by (simp add: aggregate_statistics_loaded dvd_eq_mod_eq_0)
  have 4: "?run = (Some ZeroDivisionError, rs)"
    if "?load = Inr ev'" "n_inputs \<le> int (length (pgn_strings ev'))" "batch_size = 0"
    using that by (simp add: aggregate_statistics_loaded)
  have 5: "?run = (Some e, rs)" if "?load = Inl e"
    using that by (rule aggregate_statistics_load_fails)
  show ?thesis
    by (intro conjI impI; (elim conjE)?) (rule 1 2 3 4 5; assumption)+
qed

theorem aggregate_statistics_preconditions_witness:
  "load_run ex_env ''autoencoders'' 1 ''cpu'' ''models'' ''data.pkl'' = Inr ex_env \<and>
   load_run ex_env ''autoencoders'' 2 ''cpu'' ''models'' ''data.pkl'' = Inr ex_env \<and>
   \<not> (2::int) \<le> int (length (pgn_strings ex_env)) \<and>
   aggregate_statistics ex_env [''pin''] ''autoencoders'' 2 1 ''cpu'' ''models'' ''data.pkl''
     ex_run_state = (Some AssertionError, ex_run_state) \<and>
   (2::int) \<noteq> 0 \<and> \<not> (2::int) dvd 1 \<and>
   aggregate_statistics ex_env [''pin''] ''autoencoders'' 1 2 ''cpu'' ''models'' ''data.pkl''
     ex_run_state = (Some AssertionError, ex_run_state) \<and>
   (1::int) \<le> int (length (pgn_strings ex_env)) \<and> (1::int) dvd 1 \<and>
   fst (aggregate_statistics ex_env [''pin''] ''autoencoders'' 1 1 ''cpu'' ''models'' ''data.pkl''
          ex_run_state) \<noteq> Some AssertionError \<and>
   load_run ex_env ''autoencoders'' 0 ''cpu'' ''models'' ''data.pkl'' = Inr ex_env \<and>
   aggregate_statistics ex_env [''pin''] ''autoencoders'' 1 0 ''cpu'' ''models'' ''data.pkl''
     ex_run_state = (Some ZeroDivisionError, ex_run_state) \<and>
   load_run ex_env ''autoencoders'' 1 ''cpu'' ''models'' ''missing.pkl'' = Inl OSError \<and>
   aggregate_statistics ex_env [''pin''] ''autoencoders'' 1 1 ''cpu'' ''models'' ''missing.pkl''
     ex_run_state = (Some OSError, ex_run_state)"
  using aggregate_statistics_preconditions
      [of ex_env "''autoencoders''" 1 "''cpu''" "''models''" "''data.pkl''" ex_env 2
          "[''pin'']" ex_run_state]
    aggregate_statistics_preconditions
      [of ex_env "''autoencoders''" 2 "''cpu''" "''models''" "''data.pkl''" ex_env 1
          "[''pin'']" ex_run_state]
    aggregate_statistics_preconditions
      [of ex_env "''autoencoders''" 1 "''cpu''" "''models''" "''data.pkl''" ex_env 1
          "[''pin'']" ex_run_state]
    aggregate_statistics_preconditions
      [of ex_env "''autoencoders''" 0 "''cpu''" "''models''" "''data.pkl''" ex_env 1
          "[''pin'']" ex_run_state]
    aggregate_statistics_preconditions
      [of ex_env "''autoencoders''" 1 "''cpu''" "''models''" "''missing.pkl''" ex_env 1
          "[''pin'']" ex_run_state OSError]
    ex_load_run[of "''autoencoders''" 1 "''models''"]
    ex_load_run[of "''autoencoders''" 2 "''models''"]
    ex_load_run[of "''autoencoders''" 0 "''models''"]
    ex_missing
  by (simp add: ex_env_def)

text \<open>
  The assertion error of claim C8 is not what every such configuration gets. With a batch
  size of 0, which does not divide the one input asked for, the run ends with
  ZeroDivisionError (line 160). With two inputs asked for, a dataset of one game string and
  a device that torch does not accept, the run ends with RuntimeError (line 148), before the
  assertions.
\<close>

theorem aggregate_statistics_preconditions_fail:
  "\<not> (0::int) dvd 1 \<and> (1::int) \<le> int (length (pgn_strings ex_env)) \<and>
   aggregate_statistics ex_env [''pin''] ''autoencoders'' 1 0 ''cpu'' ''models'' ''data.pkl''
     ex_run_state = (Some ZeroDivisionError, ex_run_state) \<and>
   map_sum id ds_pgn_strings (pickle_load ex_env ''data.pkl'') = Inr (Some ['';1.e4 e5'']) \<and>
   aggregate_statistics ex_env [''pin''] ''autoencoders'' 2 1 ''bogus'' ''models'' ''data.pkl''
     ex_run_state = (Some RuntimeError, ex_run_state)"
proof -
  have 1: "aggregate_statistics ex_env [''pin''] ''autoencoders'' 1 0 ''cpu'' ''models''
     ''data.pkl'' ex_run_state = (Some ZeroDivisionError, ex_run_state)"
    by (simp add: aggregate_statistics_loaded[OF ex_load_run]) (simp add: ex_env_def)
  have "load_run ex_env ''autoencoders'' 1 ''bogus'' ''models'' ''data.pkl'' = Inl RuntimeError"
    by (simp add: load_run_def load_dataset_def to_device_def ex_env_def)
  then have 2: "aggregate_statistics ex_env [''pin''] ''autoencoders'' 2 1 ''bogus'' ''models''
     ''data.pkl'' ex_run_state = (Some RuntimeError, ex_run_state)"
    by (rule aggregate_statistics_load_fails)
  have 3: "map_sum id ds_pgn_strings (pickle_load ex_env ''data.pkl'') = Inr (Some ['';1.e4 e5''])"
    "(1::int) \<le> int (length (pgn_strings ex_env))"
    by (simp_all add: ex_env_def)
  from 1 2 3 show ?thesis by simp
qed

subsection \<open>The inner loop of aggregate\_statistics\<close>

text \<open>
  In the inner loop the \<^verbatim>\<open>min\<close> of line 185 never takes effect: every sub-batch the loop
  reaches is full, and no sub-batch reaches a feature from
  \<open>feature_batch_size * (num_features // feature_batch_size)\<close> on.
\<close>

lemma inner_loop_ranges:
  assumes "feature < nat (int num_features div feature_batch_size)"
  shows "min ((int feature + 1) * feature_batch_size) (int num_features) =
           (int feature + 1) * feature_batch_size"
    and "(int feature + 1) * feature_batch_size \<le>
           feature_batch_size * (int num_features div feature_batch_size)"
proof -
  from assms have pos: "0 < int num_features div feature_batch_size" by simp
  have fpos: "0 < feature_batch_size"
  proof (rule ccontr)
    assume "\<not> 0 < feature_batch_size"
    then have "feature_batch_size \<le> 0" by simp
    then have "int num_features div feature_batch_size \<le> 0"
      by (cases "feature_batch_size = 0") (simp_all add: div_nonneg_neg_le0)
    with pos show False by simp
  qed
  from assms have "int feature + 1 \<le> int num_features div feature_batch_size" by simp
  then have le: "(int feature + 1) * feature_batch_size \<le>
      (int num_features div feature_batch_size) * feature_batch_size"
    using fpos by (simp add: mult_right_mono)
  then show "(int feature + 1) * feature_batch_size \<le>
           feature_batch_size * (int num_features div feature_batch_size)"
    by (simp add: mult.commute)
  have "(int num_features div feature_batch_size) * feature_batch_size \<le> int num_features"
    using pos_mod_sign[OF fpos, of "int num_features"]
      div_mult_mod_eq[of "int num_features" feature_batch_size] by linarith
  with le show "min ((int feature + 1) * feature_batch_size) (int num_features) =
           (int feature + 1) * feature_batch_size" by simp
qed

lemma ex3_geometry: "geometry ex3_env ''pin'' = (1, 1, 2)"
  by (simp add: geometry_def ex3_env_def)

lemma ex3_init:
  "\<exists>results h. initialize_results_dict ex3_env [''pin''] 10 3 ex_heap = Inr (results, h)"
proof -
  have "\<exists>st'. for_each (initialize_function ex3_env (int 10) (int 3)) [''pin''] (Map.empty, ex_heap) = Inr st'"
    by (rule for_each_initialize_total[where ev = ex3_env and d = "''cpu''"])
       (simp_all add: ex3_env_def)
  then show ?thesis unfolding initialize_results_dict_def by auto
qed

text \<open>
  Claim C3 (the last, short feature sub-batch) does not hold of the code. With three
  features and a feature sub-batch size of two, the loop bounds of lines 163 and 183 give
  \<open>3 // 2 = 1\<close> iteration, over the features 0 and 1. The body of the outer loop, run on
  initial accumulators for one input batch with two positions, makes a single call, for
  the range \<open>[0, 2)\<close>: feature 1 has its two positions counted and feature 2 has none.
\<close>

theorem short_feature_sub_batch_skipped:
  "\<exists>results h rs'.
     initialize_results_dict ex3_env [''pin''] 10 3 ex_heap = Inr (results, h) \<and>
     batch_step ex3_env [''pin''] thresholds_T111 2 2 (dictionary_size ex3_env)
       (int (dictionary_size ex3_env) div 2) 0
       (results, \<lparr>st_heap = h, processed = [], results_pkl = None\<rparr>) = (None, (results, rs')) \<and>
     processed rs' = [(0, 0, 2)] \<and>
     elems (cells (st_heap rs') (on_count (the (results ''pin'')))) [0, 1] +
     elems (cells (st_heap rs') (off_count (the (results ''pin'')))) [0, 1] = 2 \<and>
     elems (cells (st_heap rs') (on_count (the (results ''pin'')))) [0, 2] +
     elems (cells (st_heap rs') (off_count (the (results ''pin'')))) [0, 2] = 0"
proof -
  from ex3_init obtain results h where
    init: "initialize_results_dict ex3_env [''pin''] (int 10) (int 3) ex_heap = Inr (results, h)" by auto
  from initialize_results_dict_wf[OF init] have
    wf: "wf_state (geometry ex3_env) [''pin''] 10 3 results h" by simp
  from initialize_results_dict_config[OF init, of "''pin''"] obtain ent where
    ent: "results ''pin'' = Some ent" and z: "zero_entry 10 3 (geometry ex3_env ''pin'') h ent"
    by auto
  define boards where "boards = \<lparr>shape = [2, 1, 1, 1, 2],
      elems = \<lambda>idx. elems ex3_boards ((hd idx + 0) # tl idx)\<rparr>"
  define acts where "acts = \<lparr>shape = [2, 2, 1],
      elems = \<lambda>idx. elems ex3_acts ((hd idx + 0) # tl idx)\<rparr>"
  define c where "c = \<lparr>call_activations = acts, call_batch_data = [''pin'' \<mapsto> boards],
      call_f_start = 0, call_f_end = 2, call_f_batch_size = 2\<rparr>"
  let ?h' = "calls_spec_f32 results [''pin''] thresholds_T111 [c] h"
  let ?hx = "calls_spec results [''pin''] thresholds_T111 [c] h"
  have data: "get_data_batch ex3_env (data ex3_env) (py_slice (pgn_strings ex3_env) 0 2) 0 2 [''pin''] =
      Inr [''pin'' \<mapsto> boards]"
    by (simp add: get_data_batch_def get_data_function_def ex3_env_def slice0_def ex3_boards_def
          slice_index_def boards_def)
  have slice: "slice0 ex3_acts 0 2 = Inr acts"
    by (simp add: slice0_def ex3_acts_def slice_index_def acts_def)
  have exact: "exact_call (geometry ex3_env) [''pin''] 3 c"
    by (simp add: exact_call_def wf_call_def c_def acts_def boards_def ex3_geometry)
  have thr: "shape thresholds_T111 = [10, 1, 1, 1]" by (simp add: thresholds_T111_def)
  have call: "aggregate_batch_statistics_f32 results [''pin''] acts thresholds_T111
             [''pin'' \<mapsto> boards] 0 2 2 h = Inr (results, ?h')"
    using exact_call_run_f32[OF wf exact thr] by (simp add: c_def calls_spec_f32_def)
  have step: "batch_step ex3_env [''pin''] thresholds_T111 2 2 (dictionary_size ex3_env)
       (int (dictionary_size ex3_env) div 2) 0
       (results, \<lparr>st_heap = h, processed = [], results_pkl = None\<rparr>) =
     (None, (results, \<lparr>st_heap = ?h', processed = [(0, 0, 2)], results_pkl = None\<rparr>))"
  proof -
    have n: "dictionary_size ex3_env = 3" "collect_activations_batch ex3_env xs = ex3_acts" for xs
      by (simp_all add: ex3_env_def)
    have one: "[0..<nat (3 div 2)] = [0]" by simp
    show ?thesis
      by (simp add: batch_step_def Let_def data n one feature_step_def slice call)
  qed
  have pos: "positions c = 2" by (simp add: positions_def c_def acts_def)
  have totalx: "elems (cells ?hx (on_count ent)) [0, f] + elems (cells ?hx (off_count ent)) [0, f] =
      (\<Sum>c'\<leftarrow>[c]. if covers c' f then real (positions c') else 0)" if "f < 3" for f
    using calls_counts_total[where calls="[c]" and thr=thresholds_T111 and t=0, OF wf _ _ _ ent _ that]
      exact
    by (simp add: zero_entryD[OF z])
  have calls: "\<forall>c'\<in>set [c]. exact_call (geometry ex3_env) [''pin''] 3 c'" using exact by simp
  have agree: "elems (cells ?h' (on_count ent)) [0, f] = elems (cells ?hx (on_count ent)) [0, f]"
    "elems (cells ?h' (off_count ent)) [0, f] = elems (cells ?hx (off_count ent)) [0, f]"
    if "f < 3" for f
  proof -
    show "elems (cells ?h' (on_count ent)) [0, f] = elems (cells ?hx (on_count ent)) [0, f]"
      by (rule calls_on_count_f32[where m = 0 and cf = "''pin''", OF wf wf _ calls _ ent _ that])
         (simp_all add: zero_entryD[OF z] pos)
    show "elems (cells ?h' (off_count ent)) [0, f] = elems (cells ?hx (off_count ent)) [0, f]"
      by (rule calls_off_count_f32[where m = 0 and cf = "''pin''", OF wf wf _ calls _ ent _ that])
         (simp_all add: zero_entryD[OF z] pos)
  qed
  have total: "elems (cells ?h' (on_count ent)) [0, f] + elems (cells ?h' (off_count ent)) [0, f] =
      (\<Sum>c'\<leftarrow>[c]. if covers c' f then real (positions c') else 0)" if "f < 3" for f
    using totalx[OF that] agree[OF that] by simp
  have v1: "elems (cells ?h' (on_count ent)) [0, 1] + elems (cells ?h' (off_count ent)) [0, 1] = 2"
    using total[of 1] by (simp add: covers_def positions_def c_def acts_def)
  have v2: "elems (cells ?h' (on_count ent)) [0, 2] + elems (cells ?h' (off_count ent)) [0, 2] = 0"
    using total[of 2] by (simp add: covers_def positions_def c_def acts_def)
  show ?thesis
    apply (rule exI[of _ results], rule exI[of _ h],
           rule exI[of _ "\<lparr>st_heap = ?h', processed = [(0, 0, 2)], results_pkl = None\<rparr>"])
    using init step v1 v2 ent by simp
qed

text \<open>
  Claim C4 (partition invariance). On well-formed accumulators, for a list of attribute
  functions without repetition and calls whose tensors have the shapes of their feature
  ranges: a call returns; cutting its batch in two at any point, or cutting its feature
  range in two at any point, and making the two calls in either order gives exactly the
  result of the whole call; and the calls of a sequence may be made in any order (the result
  depends only on which calls are made and how often). All equalities are equalities of the
  whole state, over exact arithmetic.
\<close>

theorem partition_invariance:
  assumes wf: "wf_state geom cfs T N results h" and dist: "distinct cfs"
    and thr: "shape thr = [T, 1, 1, 1]"
    and calls: "\<forall>c\<in>set calls. exact_call geom cfs N c" and c: "exact_call geom cfs N c"
  shows "(\<exists>h'. accumulate_calls results cfs thr [c] h = Inr (results, h')) \<and>
     (\<forall>k\<le>shape (call_activations c) ! 1.
        accumulate_calls results cfs thr [batch_lo k c, batch_hi k c] h =
          accumulate_calls results cfs thr [c] h \<and>
        accumulate_calls results cfs thr [batch_hi k c, batch_lo k c] h =
          accumulate_calls results cfs thr [c] h) \<and>
     (\<forall>m. nat (call_f_start c) \<le> m \<and> m \<le> nat (call_f_end c) \<longrightarrow>
        accumulate_calls results cfs thr [feature_lo m c, feature_hi m c] h =
          accumulate_calls results cfs thr [c] h \<and>
        accumulate_calls results cfs thr [feature_hi m c, feature_lo m c] h =
          accumulate_calls results cfs thr [c] h) \<and>
     (\<exists>h'. accumulate_calls results cfs thr calls h = Inr (results, h')) \<and>
     (\<forall>calls'. mset calls' = mset calls \<longrightarrow>
        accumulate_calls results cfs thr calls' h = accumulate_calls results cfs thr calls h)"
proof -
  have single: "\<forall>x\<in>set [c]. exact_call geom cfs N x" using c by simp
  have 1: "\<exists>h'. accumulate_calls results cfs thr [c] h = Inr (results, h')"
    using accumulate_calls_exact[OF wf single thr] by blast
  have 2: "accumulate_calls results cfs thr [batch_lo k c, batch_hi k c] h =
             accumulate_calls results cfs thr [c] h \<and>
           accumulate_calls results cfs thr [batch_hi k c, batch_lo k c] h =
             accumulate_calls results cfs thr [c] h"
    if k: "k \<le> shape (call_activations c) ! 1" for k
  proof -
    note parts = batch_split_exact[OF c k]
    have lh: "\<forall>x\<in>set [batch_lo k c, batch_hi k c]. exact_call geom cfs N x" using parts by simp
    have hl: "\<forall>x\<in>set [batch_hi k c, batch_lo k c]. exact_call geom cfs N x" using parts by simp
    have a: "accumulate_calls results cfs thr [batch_lo k c, batch_hi k c] h =
             accumulate_calls results cfs thr [c] h"
      by (rule accumulate_calls_cong[OF wf dist thr lh single])
         (simp add: cell_update_batch_split[OF c k])
    have b: "accumulate_calls results cfs thr [batch_hi k c, batch_lo k c] h =
             accumulate_calls results cfs thr [c] h"
      by (rule accumulate_calls_cong[OF wf dist thr hl single])
         (simp add: cell_update_commute[of _ _ _ "batch_lo k c"] cell_update_batch_split[OF c k])
    from a b show ?thesis by simp
  qed
  have 3: "accumulate_calls results cfs thr [feature_lo m c, feature_hi m c] h =
             accumulate_calls results cfs thr [c] h \<and>
           accumulate_calls results cfs thr [feature_hi m c, feature_lo m c] h =
             accumulate_calls results cfs thr [c] h"
    if m: "nat (call_f_start c) \<le> m" "m \<le> nat (call_f_end c)" for m
  proof -
    note parts = feature_split_exact[OF c m]
    have lh: "\<forall>x\<in>set [feature_lo m c, feature_hi m c]. exact_call geom cfs N x" using parts by simp
    have hl: "\<forall>x\<in>set [feature_hi m c, feature_lo m c]. exact_call geom cfs N x" using parts by simp
    have a: "accumulate_calls results cfs thr [feature_lo m c, feature_hi m c] h =
             accumulate_calls results cfs thr [c] h"
      by (rule accumulate_calls_cong[OF wf dist thr lh single])
         (simp add: cell_update_feature_split[OF c m])
    have b: "accumulate_calls results cfs thr [feature_hi m c, feature_lo m c] h =
             accumulate_calls results cfs thr [c] h"
      by (rule accumulate_calls_cong[OF wf dist thr hl single])
         (simp add: cell_update_commute[of _ _ _ "feature_lo m c"] cell_update_feature_split[OF c m])
    from a b show ?thesis by simp
  qed
  have 4: "\<exists>h'. accumulate_calls results cfs thr calls h = Inr (results, h')"
    using accumulate_calls_exact[OF wf calls thr] by blast
  have 5: "accumulate_calls results cfs thr calls' h = accumulate_calls results cfs thr calls h"
    if p: "mset calls' = mset calls" for calls'
  proof -
    from p have "set calls' = set calls" by (rule mset_eq_setD)
    with calls have calls': "\<forall>c\<in>set calls'. exact_call geom cfs N c" by simp
    show ?thesis
      by (rule accumulate_calls_cong[OF wf dist thr calls' calls])
         (rule fold_cell_update_permute[OF p])
  qed
  from 1 2 3 4 5 show ?thesis by blast
qed

lemma ex3_exact_call: "exact_call (geometry ex3_env) [''pin''] 3 ex3_call"
  by (simp add: exact_call_def wf_call_def ex3_call_def ex3_acts_def ex3_boards_def ex3_geometry)

theorem partition_invariance_witness:
  "\<exists>results h.
     initialize_results_dict ex3_env [''pin''] 10 3 ex_heap = Inr (results, h) \<and>
     (1::nat) \<le> shape (call_activations ex3_call) ! 1 \<and>
     accumulate_calls results [''pin''] thresholds_T111 [batch_lo 1 ex3_call, batch_hi 1 ex3_call] h =
       accumulate_calls results [''pin''] thresholds_T111 [ex3_call] h \<and>
     nat (call_f_start ex3_call) \<le> 2 \<and> 2 \<le> nat (call_f_end ex3_call) \<and>
     accumulate_calls results [''pin''] thresholds_T111 [feature_hi 2 ex3_call, feature_lo 2 ex3_call] h =
       accumulate_calls results [''pin''] thresholds_T111 [ex3_call] h \<and>
     (\<exists>h'. accumulate_calls results [''pin''] thresholds_T111 [ex3_call] h = Inr (results, h'))"
proof -
  from ex3_init obtain results h where
    init: "initialize_results_dict ex3_env [''pin''] (int 10) (int 3) ex_heap = Inr (results, h)" by auto
  from initialize_results_dict_wf[OF init] have
    wf: "wf_state (geometry ex3_env) [''pin''] 10 3 results h" by simp
  have thr: "shape thresholds_T111 = [10, 1, 1, 1]" by (simp add: thresholds_T111_def)
  have calls: "\<forall>c\<in>set []. exact_call (geometry ex3_env) [''pin''] 3 c" by simp
  note p = partition_invariance[OF wf _ thr calls ex3_exact_call]
  have k: "(1::nat) \<le> shape (call_activations ex3_call) ! 1"
    by (simp add: ex3_call_def ex3_acts_def)
  have m: "nat (call_f_start ex3_call) \<le> 2" "2 \<le> nat (call_f_end ex3_call)"
    by (simp_all add: ex3_call_def)
  from p k m have
    "accumulate_calls results [''pin''] thresholds_T111 [batch_lo 1 ex3_call, batch_hi 1 ex3_call] h =
       accumulate_calls results [''pin''] thresholds_T111 [ex3_call] h"
    "accumulate_calls results [''pin''] thresholds_T111 [feature_hi 2 ex3_call, feature_lo 2 ex3_call] h =
       accumulate_calls results [''pin''] thresholds_T111 [ex3_call] h"
    "\<exists>h'. accumulate_calls results [''pin''] thresholds_T111 [ex3_call] h = Inr (results, h')"
    by auto
  with init k m show ?thesis by auto
qed

end
